theory Spec2Isabelle
  imports Main "HOL-Library.Sublist"
begin

section \<open>Python strings\<close>

text \<open>
  A Python \<^verbatim>\<open>str\<close> is a sequence of Unicode code points, so it is modelled as a list of
  code points (\<open>len\<close> is \<open>length\<close>). ASCII literals of the source are written with
  \<open>s2p\<close>; a code point beyond ASCII is written as its number (\<open>233\<close> is e-acute).
\<close>

type_synonym pstr = "nat list"

definition s2p :: "string \<Rightarrow> pstr" where
  "s2p s = map of_char s"

text \<open>
  The whitespace of \<^verbatim>\<open>str.strip()\<close>, \<^verbatim>\<open>str.split()\<close> and of \<^verbatim>\<open>\s\<close> in a \<^verbatim>\<open>str\<close>
  pattern: the code points for which CPython's \<^verbatim>\<open>Py_UNICODE_ISSPACE\<close> holds.
\<close>

definition is_space :: "nat \<Rightarrow> bool" where
  "is_space c = ((9 \<le> c \<and> c \<le> 13) \<or> (28 \<le> c \<and> c \<le> 32) \<or> c = 133 \<or> c = 160
     \<or> c = 5760 \<or> (8192 \<le> c \<and> c \<le> 8202) \<or> c = 8232 \<or> c = 8233 \<or> c = 8239
     \<or> c = 8287 \<or> c = 12288)"

text \<open>
  The parts of the Unicode database the code reads through \<^verbatim>\<open>str.lower()\<close>, \<^verbatim>\<open>\d\<close>
  and \<^verbatim>\<open>\b\<close>/\<^verbatim>\<open>\w\<close> are parameters of the model: every theorem below holds for any
  value of them. \<open>str_lower\<close> is a function on whole strings, since Python's lower-casing
  is not character-wise (final sigma, code points that lower to two).
\<close>

record unicode_db =
  str_lower :: "pstr \<Rightarrow> pstr"
  re_digit :: "nat \<Rightarrow> bool"
  re_word :: "nat \<Rightarrow> bool"

text \<open>The database restricted to ASCII, for running the model on ASCII inputs.\<close>

definition ascii_lower :: "pstr \<Rightarrow> pstr" where
  "ascii_lower s = map (\<lambda>c. if 65 \<le> c \<and> c \<le> 90 then c + 32 else c) s"

definition ascii_digit :: "nat \<Rightarrow> bool" where
  "ascii_digit c = (48 \<le> c \<and> c \<le> 57)"

definition ascii_word :: "nat \<Rightarrow> bool" where
  "ascii_word c = ((48 \<le> c \<and> c \<le> 57) \<or> (65 \<le> c \<and> c \<le> 90) \<or> c = 95 \<or> (97 \<le> c \<and> c \<le> 122))"

definition ascii_db :: unicode_db where
  "ascii_db = \<lparr> str_lower = ascii_lower, re_digit = ascii_digit, re_word = ascii_word \<rparr>"

text \<open>\<^verbatim>\<open>s.strip()\<close>.\<close>

definition py_strip :: "pstr \<Rightarrow> pstr" where
  "py_strip s = rev (dropWhile is_space (rev (dropWhile is_space s)))"

text \<open>
  \<^verbatim>\<open>s.split()\<close>: the maximal runs of non-whitespace, in order. \<open>split_ws w s\<close> scans
  \<open>s\<close> with the word read so far in \<open>w\<close>.
\<close>

fun split_ws :: "pstr \<Rightarrow> pstr \<Rightarrow> pstr list" where
  "split_ws w [] = (if w = [] then [] else [w])"
| "split_ws w (c # cs) =
     (if is_space c then (if w = [] then split_ws [] cs else w # split_ws [] cs)
      else split_ws (w @ [c]) cs)"

definition py_split :: "pstr \<Rightarrow> pstr list" where
  "py_split s = split_ws [] s"

text \<open>\<^verbatim>\<open>" ".join(words)\<close>.\<close>

fun join_space :: "pstr list \<Rightarrow> pstr" where
  "join_space [] = []"
| "join_space [w] = w"
| "join_space (w # v # ws) = w @ [32] @ join_space (v # ws)"

text \<open>\<^verbatim>\<open>k in t\<close> on strings: \<open>k\<close> occurs in \<open>t\<close> as a contiguous substring.\<close>

fun contains :: "pstr \<Rightarrow> pstr \<Rightarrow> bool" where
  "contains k [] = (k = [])"
| "contains k (c # cs) = (prefix k (c # cs) \<or> contains k cs)"

text \<open>\<^verbatim>\<open>xs[i:]\<close> for any integer \<open>i\<close>: a negative \<open>i\<close> counts from the end.\<close>

definition py_slice_from :: "int \<Rightarrow> 'a list \<Rightarrow> 'a list" where
  "py_slice_from i xs =
     (if i < 0 then drop (nat (int (length xs) + i)) xs else drop (nat i) xs)"

text \<open>
  \<^verbatim>\<open>int(n / 10)\<close> for an integer \<open>n\<close>: true division, then truncation towards zero.
  This is what the source computes for \<open>\<bar>n\<bar> < 2^53\<close>, where the rounding of the quotient to
  a double does not reach the next integer. Beyond that the source rounds, and beyond the
  range of a double it raises \<^verbatim>\<open>OverflowError\<close>: the model is not the code there. The code
  divides only when a buffer of more than 10 words is closed, so only a statement that a
  chunk is emitted depends on it, and such a statement assumes \<open>\<bar>overlap\<bar> < 2^53\<close>.
\<close>

definition int_div10 :: "int \<Rightarrow> int" where
  "int_div10 n = (if 0 \<le> n then n div 10 else - ((- n) div 10))"

section \<open>Dictionaries and chunks\<close>

text \<open>
  The values the code stores in a chunk's metadata. A \<^verbatim>\<open>dict\<close> keeps insertion order,
  so it is an association list with distinct keys: \<open>dict_set\<close> is \<^verbatim>\<open>d[k] = v\<close>,
  \<open>dict_update\<close> is \<^verbatim>\<open>d.update(e)\<close>, \<open>dict_get\<close> is \<^verbatim>\<open>d.get(k)\<close>.
\<close>

datatype pyval = PyInt int | PyBool bool | PyStr pstr | PyNone

type_synonym pydict = "(pstr \<times> pyval) list"

fun dict_set :: "pydict \<Rightarrow> pstr \<Rightarrow> pyval \<Rightarrow> pydict" where
  "dict_set [] k v = [(k, v)]"
| "dict_set ((k', v') # d) k v =
     (if k' = k then (k, v) # d else (k', v') # dict_set d k v)"

fun dict_update :: "pydict \<Rightarrow> pydict \<Rightarrow> pydict" where
  "dict_update d [] = d"
| "dict_update d ((k, v) # e) = dict_update (dict_set d k v) e"

definition dict_get :: "pydict \<Rightarrow> pstr \<Rightarrow> pyval option" where
  "dict_get d k = map_of d k"

text \<open>
  \<^verbatim>\<open>TextChunk\<close>, and its construction: \<^verbatim>\<open>__post_init__\<close> recomputes a count from the
  text when the count passed in is falsy, that is \<open>0\<close>.
\<close>

record TextChunk =
  "text" :: pstr
  chunk_index :: int
  word_count :: int
  char_count :: int
  chunk_type :: pstr
  "keywords" :: "pstr list"
  metadata :: pydict

definition new_TextChunk ::
  "pstr \<Rightarrow> int \<Rightarrow> int \<Rightarrow> int \<Rightarrow> pstr \<Rightarrow> pstr list \<Rightarrow> pydict \<Rightarrow> TextChunk" where
  "new_TextChunk t i wc cc ty kws md =
     \<lparr> text = t, chunk_index = i,
       word_count = (if wc = 0 then int (length (py_split t)) else wc),
       char_count = (if cc = 0 then int (length t) else cc),
       chunk_type = ty, keywords = kws, metadata = md \<rparr>"

section \<open>TextProcessor\<close>

text \<open>
  The processor's attributes. \<open>nlp\<close> stands for the spaCy pipeline: the texts of
  \<^verbatim>\<open>self.nlp(text).sents\<close>, whatever the loaded model gives (it is only called when
  \<open>use_spacy\<close> holds). The logger is not modelled, and the regular expressions of
  \<^verbatim>\<open>section_patterns\<close> are the constant \<open>section_patterns\<close> below: no method changes them.
\<close>

record TextProcessor =
  chunk_size :: int
  overlap :: int
  min_chunk_size :: int
  chunk_keywords :: "(pstr \<times> pstr list) list"
  use_spacy :: bool
  nlp :: "pstr \<Rightarrow> pstr list"

text \<open>
  \<^verbatim>\<open>__init__\<close>. Its arguments are \<open>chunk_size\<close> and \<open>overlap\<close>; whether spaCy's French
  model loads, and what it computes, is the environment's (\<open>spacy_model\<close>).
\<close>

definition default_chunk_keywords :: "(pstr \<times> pstr list) list" where
  "default_chunk_keywords =
    [(s2p ''procedure'',
        [s2p ''d'' @ [233] @ s2p ''marche'', s2p ''proc'' @ [233] @ s2p ''dure'',
         [233] @ s2p ''tape'', s2p ''comment'', s2p ''mode d'' @ [39] @ s2p ''emploi'']),
     (s2p ''definition'',
        [s2p ''d'' @ [233] @ s2p ''finition'', s2p ''qu'' @ [39] @ s2p ''est-ce'',
         s2p ''signifie'', s2p ''correspond'']),
     (s2p ''obligation'',
        [s2p ''obligation'', s2p ''devoir'', s2p ''doit'', s2p ''tenu de'',
         s2p ''obligatoire'']),
     (s2p ''droit'',
        [s2p ''droit'', s2p ''peut'', s2p ''autoris'' @ [233], s2p ''possibilit'' @ [233],
         s2p ''facult'' @ [233]]),
     (s2p ''sanction'',
        [s2p ''sanction'', s2p ''amende'', s2p ''p'' @ [233] @ s2p ''nalit'' @ [233],
         s2p ''infraction'', s2p ''contravention'']),
     (s2p ''aide'',
        [s2p ''aide'', s2p ''subvention'', s2p ''allocation'', s2p ''financement'',
         s2p ''soutien''])]"

definition init :: "int \<Rightarrow> int \<Rightarrow> (pstr \<Rightarrow> pstr list) option \<Rightarrow> TextProcessor" where
  "init cs ov spacy_model =
     \<lparr> chunk_size = cs, overlap = ov, min_chunk_size = 100,
       chunk_keywords = default_chunk_keywords,
       use_spacy = (spacy_model \<noteq> None),
       nlp = (case spacy_model of Some f \<Rightarrow> f | None \<Rightarrow> (\<lambda>t. [])) \<rparr>"

subsection \<open>classify_chunk_content\<close>

definition classify_chunk_content :: "unicode_db \<Rightarrow> TextProcessor \<Rightarrow> pstr \<Rightarrow> pstr list" where
  "classify_chunk_content u p t =
     (let text_lower = str_lower u t;
          detected_categories =
            map fst (filter (\<lambda>(category, kws). list_ex (\<lambda>keyword. contains keyword text_lower) kws)
                       (chunk_keywords p))
      in if detected_categories = [] then [s2p ''general''] else detected_categories)"

subsection \<open>create_chunks_with_overlap\<close>

text \<open>
  \<^verbatim>\<open>re.search(r'\d{1,2}[/-]\d{1,2}[/-]\d{2,4}', t)\<close>. \<open>digits12_sep s\<close> lists what is
  left of \<open>s\<close> after one or two digits and a separator at its start (two digits tried
  first, as the greedy quantifier does); a search only asks whether some position matches,
  so \<^verbatim>\<open>\d{2,4}\<close> is two digits.
\<close>

definition date_sep :: "nat \<Rightarrow> bool" where
  "date_sep c = (c = 47 \<or> c = 45)"

fun digits12_sep :: "unicode_db \<Rightarrow> pstr \<Rightarrow> pstr list" where
  "digits12_sep u (a # b # c # r) =
     (if re_digit u a \<and> re_digit u b \<and> date_sep c then [r] else []) @
     (if re_digit u a \<and> date_sep b then [c # r] else [])"
| "digits12_sep u [a, b] = (if re_digit u a \<and> date_sep b then [[]] else [])"
| "digits12_sep u s = []"

fun two_digits :: "unicode_db \<Rightarrow> pstr \<Rightarrow> bool" where
  "two_digits u (a # b # r) = (re_digit u a \<and> re_digit u b)"
| "two_digits u s = False"

definition date_at :: "unicode_db \<Rightarrow> pstr \<Rightarrow> bool" where
  "date_at u s = list_ex (\<lambda>r. list_ex (two_digits u) (digits12_sep u r)) (digits12_sep u s)"

fun search_date :: "unicode_db \<Rightarrow> pstr \<Rightarrow> bool" where
  "search_date u [] = False"
| "search_date u (c # cs) = (date_at u (c # cs) \<or> search_date u cs)"

text \<open>\<^verbatim>\<open>t.count('.') + t.count('!') + t.count('?')\<close>.\<close>

definition sentence_count :: "pstr \<Rightarrow> int" where
  "sentence_count t = int (count_list t 46) + int (count_list t 33) + int (count_list t 63)"

text \<open>The metadata literal of a chunk closed inside the loop, and of the last chunk.\<close>

definition loop_metadata :: "unicode_db \<Rightarrow> pstr \<Rightarrow> pydict" where
  "loop_metadata u chunk_text =
     [(s2p ''sentence_count'', PyInt (sentence_count chunk_text)),
      (s2p ''has_numbers'', PyBool (list_ex (re_digit u) chunk_text)),
      (s2p ''has_dates'', PyBool (search_date u chunk_text)),
      (s2p ''complexity'',
         PyStr (if length (py_split chunk_text) > 50 then s2p ''high'' else s2p ''normal''))]"

definition final_metadata :: "pstr \<Rightarrow> pydict" where
  "final_metadata final_chunk_text =
     [(s2p ''sentence_count'', PyInt (sentence_count final_chunk_text)),
      (s2p ''is_final'', PyBool True)]"

text \<open>
  The local variables of the method that live across iterations of its loop;
  \<open>next_index\<close> is the local \<^verbatim>\<open>chunk_index\<close>, the index the next chunk gets.
\<close>

record chunker =
  chunks :: "TextChunk list"
  current_chunk :: pstr
  next_index :: int
  overlap_buffer :: pstr

definition chunker0 :: chunker where
  "chunker0 = \<lparr> chunks = [], current_chunk = [], next_index = 0, overlap_buffer = [] \<rparr>"

text \<open>
  One iteration of \<^verbatim>\<open>for i, sentence in enumerate(sentences)\<close>, in three parts:
  \<open>close_chunk\<close> is \<^verbatim>\<open># Finaliser le chunk actuel\<close> (the chunk is appended only if it
  reaches the minimum size), \<open>next_overlap\<close> is \<^verbatim>\<open># Preparer l'overlap pour le chunk suivant\<close>,
  and \<open>absorb\<close> is the body of the loop.
\<close>

definition close_chunk :: "unicode_db \<Rightarrow> TextProcessor \<Rightarrow> chunker \<Rightarrow> chunker" where
  "close_chunk u p st =
     (let chunk_text = py_strip (overlap_buffer st @ [32] @ current_chunk st)
      in if int (length chunk_text) \<ge> min_chunk_size p then
           st \<lparr> chunks := chunks st @
                  [new_TextChunk chunk_text (next_index st)
                     (int (length (py_split chunk_text))) (int (length chunk_text))
                     (s2p ''content'') (classify_chunk_content u p chunk_text)
                     (loop_metadata u chunk_text)],
                next_index := next_index st + 1 \<rparr>
         else st)"

definition next_overlap :: "TextProcessor \<Rightarrow> pstr \<Rightarrow> pstr" where
  "next_overlap p current =
     (let ws = py_split current
      in if length ws > 10 then join_space (py_slice_from (- int_div10 (overlap p)) ws)
         else current)"

definition absorb :: "unicode_db \<Rightarrow> TextProcessor \<Rightarrow> chunker \<Rightarrow> pstr \<Rightarrow> chunker" where
  "absorb u p st sentence =
     (let potential_chunk =
            (if current_chunk st \<noteq> [] then current_chunk st @ [32] @ sentence else sentence)
      in if int (length potential_chunk) > chunk_size p \<and> current_chunk st \<noteq> [] then
           (close_chunk u p st)
             \<lparr> overlap_buffer := next_overlap p (current_chunk st),
               current_chunk := sentence \<rparr>
         else st \<lparr> current_chunk := potential_chunk \<rparr>)"

text \<open>The statements after the loop (\<^verbatim>\<open># Traiter le dernier chunk\<close>) and the return.\<close>

definition finish :: "unicode_db \<Rightarrow> TextProcessor \<Rightarrow> chunker \<Rightarrow> TextChunk list" where
  "finish u p st =
     (if current_chunk st \<noteq> [] \<and> int (length (current_chunk st)) \<ge> min_chunk_size p then
        let final_chunk_text = py_strip (overlap_buffer st @ [32] @ current_chunk st)
        in chunks st @
             [new_TextChunk final_chunk_text (next_index st)
                (int (length (py_split final_chunk_text))) (int (length final_chunk_text))
                (s2p ''content'') (classify_chunk_content u p final_chunk_text)
                (final_metadata final_chunk_text)]
      else chunks st)"

definition create_chunks_with_overlap ::
  "unicode_db \<Rightarrow> TextProcessor \<Rightarrow> pstr list \<Rightarrow> TextChunk list" where
  "create_chunks_with_overlap u p sentences = finish u p (foldl (absorb u p) chunker0 sentences)"

subsection \<open>clean_text\<close>

text \<open>
  \<^verbatim>\<open>re.sub(r'\s+', ' ', text)\<close>: every maximal run of whitespace becomes one space. The
  flag says that the scan is inside a run.
\<close>

fun collapse_ws :: "bool \<Rightarrow> pstr \<Rightarrow> pstr" where
  "collapse_ws b [] = []"
| "collapse_ws b (c # cs) =
     (if is_space c then (if b then collapse_ws True cs else 32 # collapse_ws True cs)
      else c # collapse_ws False cs)"

text \<open>
  \<^verbatim>\<open>re.sub(r'\n\s*\n', '\n\n', text)\<close>: a newline, and the whitespace after it up to the
  last newline of that run of whitespace, become two newlines; the scan goes on behind that
  newline.
\<close>

definition after_last_nl :: "pstr \<Rightarrow> pstr" where
  "after_last_nl ws = rev (takeWhile (\<lambda>c. c \<noteq> 10) (rev ws))"

function blank_lines :: "pstr \<Rightarrow> pstr" where
  "blank_lines [] = []"
| "blank_lines (c # cs) =
     (if c = 10 \<and> 10 \<in> set (takeWhile is_space cs)
      then 10 # 10 # blank_lines (after_last_nl (takeWhile is_space cs) @ dropWhile is_space cs)
      else c # blank_lines cs)"
  by pat_completeness auto
termination
proof (relation "measure length")
  fix c :: nat and cs :: pstr
  have "length (after_last_nl (takeWhile is_space cs)) \<le> length (takeWhile is_space cs)"
    unfolding after_last_nl_def by (metis length_rev length_takeWhile_le)
  moreover have "length (takeWhile is_space cs) + length (dropWhile is_space cs) = length cs"
    by (metis length_append takeWhile_dropWhile_id)
  ultimately show "(after_last_nl (takeWhile is_space cs) @ dropWhile is_space cs, c # cs)
      \<in> measure length"
    by simp
qed simp_all

text \<open>\<^verbatim>\<open>text.replace(a, b)\<close> for one-character strings \<open>a\<close> and \<open>b\<close>.\<close>

definition replace_char :: "nat \<Rightarrow> nat \<Rightarrow> pstr \<Rightarrow> pstr" where
  "replace_char a b s = map (\<lambda>c. if c = a then b else c) s"

definition is_punct :: "nat \<Rightarrow> bool" where
  "is_punct c = (c = 44 \<or> c = 46 \<or> c = 33 \<or> c = 63 \<or> c = 59 \<or> c = 58)"

text \<open>
  \<^verbatim>\<open>re.sub(r'\s+([,.!?;:])', r'\1', text)\<close>: a run of whitespace that a punctuation mark
  follows is deleted. \<open>ws\<close> is the run read so far.
\<close>

fun space_before_punct :: "pstr \<Rightarrow> pstr \<Rightarrow> pstr" where
  "space_before_punct ws [] = ws"
| "space_before_punct ws (c # cs) =
     (if is_space c then space_before_punct (ws @ [c]) cs
      else if is_punct c then c # space_before_punct [] cs
      else ws @ c # space_before_punct [] cs)"

text \<open>
  \<^verbatim>\<open>re.sub(r'([,.!?;:])\s*', r'\1 ', text)\<close>: a punctuation mark and the whitespace after
  it become the mark and one space. The flag says that the scan is in that whitespace.
\<close>

fun space_after_punct :: "bool \<Rightarrow> pstr \<Rightarrow> pstr" where
  "space_after_punct b [] = []"
| "space_after_punct b (c # cs) =
     (if is_punct c then c # 32 # space_after_punct True cs
      else if b \<and> is_space c then space_after_punct True cs
      else c # space_after_punct False cs)"

definition clean_text :: "pstr \<Rightarrow> pstr" where
  "clean_text t =
     (if t = [] then []
      else let t1 = collapse_ws False t;
               t2 = blank_lines t1;
               t3 = replace_char 160 32 t2;
               t4 = replace_char 8217 39 t3;
               t5 = replace_char 8211 45 t4;
               t6 = replace_char 8212 45 t5;
               t7 = space_before_punct [] t6;
               t8 = space_after_punct False t7
           in py_strip t8)"

subsection \<open>smart_split_sentences\<close>

definition abbreviations :: "pstr list" where
  "abbreviations = [s2p ''M'', s2p ''Mme'', s2p ''Dr'', s2p ''etc'', s2p ''cf'', s2p ''ex'',
                    s2p ''art'', s2p ''vol'', s2p ''n'' @ [176]]"

definition abbrev_marker :: pstr where
  "abbrev_marker = s2p ''<!ABBREV!>''"

text \<open>
  \<open>abbrev_at s\<close>: the alternative of \<^verbatim>\<open>(M|Mme|Dr|etc|cf|ex|art|vol|n\<degree>)\.\s\<close> that matches
  at the start of \<open>s\<close>, the first in the order of the pattern.
\<close>

definition abbrev_at :: "pstr \<Rightarrow> pstr option" where
  "abbrev_at s =
     find (\<lambda>a. prefix (a @ [46]) s \<and>
                (case drop (length a + 1) s of [] \<Rightarrow> False | x # r \<Rightarrow> is_space x))
          abbreviations"

text \<open>
  \<^verbatim>\<open>re.sub(r'\b(M|Mme|Dr|etc|cf|ex|art|vol|n\<degree>)\.\s', r'\1<!ABBREV!> ', text)\<close>. The flag
  says whether the character before the scanned position is a word character, for
  \<^verbatim>\<open>\b\<close>; after a match it is the whitespace that ended the match.
\<close>

function protect_abbrev :: "unicode_db \<Rightarrow> bool \<Rightarrow> pstr \<Rightarrow> pstr" where
  "protect_abbrev u w [] = []"
| "protect_abbrev u w (c # cs) =
     (case (if w \<noteq> re_word u c then abbrev_at (c # cs) else None) of
        Some a \<Rightarrow>
          a @ abbrev_marker @ [32] @
          protect_abbrev u (re_word u ((c # cs) ! (length a + 1))) (drop (length a + 2) (c # cs))
      | None \<Rightarrow> c # protect_abbrev u (re_word u c) cs)"
  by pat_completeness auto
termination
  by (relation "measure (\<lambda>(u, w, s). length s)") auto

text \<open>
  \<^verbatim>\<open>re.split(r'[.!?]+\s+', text)\<close>. \<open>acc\<close> is the piece read so far, \<open>pend\<close> the run of
  terminators that may end it, and the flag says that the scan is in the whitespace of
  a match.
\<close>

definition is_terminator :: "nat \<Rightarrow> bool" where
  "is_terminator c = (c = 46 \<or> c = 33 \<or> c = 63)"

fun split_sentences :: "pstr \<Rightarrow> pstr \<Rightarrow> bool \<Rightarrow> pstr \<Rightarrow> pstr list" where
  "split_sentences acc pend b [] = [acc @ pend]"
| "split_sentences acc pend b (c # cs) =
     (if is_terminator c then split_sentences acc (pend @ [c]) False cs
      else if is_space c then
        (if pend \<noteq> [] then acc # split_sentences [] [] True cs
         else if b then split_sentences acc pend True cs
         else split_sentences (acc @ [c]) [] False cs)
      else split_sentences (acc @ pend @ [c]) [] False cs)"

text \<open>
  \<^verbatim>\<open>s.replace(old, new)\<close> for a non-empty \<open>old\<close> (the only call replaces the marker).
\<close>

function py_replace :: "pstr \<Rightarrow> pstr \<Rightarrow> pstr \<Rightarrow> pstr" where
  "py_replace old new [] = []"
| "py_replace old new (c # cs) =
     (if old \<noteq> [] \<and> prefix old (c # cs)
      then new @ py_replace old new (drop (length old) (c # cs))
      else c # py_replace old new cs)"
  by pat_completeness auto
termination
  by (relation "measure (\<lambda>(old, new, s). length s)") auto

definition smart_split_sentences :: "unicode_db \<Rightarrow> TextProcessor \<Rightarrow> pstr \<Rightarrow> pstr list" where
  "smart_split_sentences u p t =
     (if use_spacy p then
        map py_strip (filter (\<lambda>sent. py_strip sent \<noteq> []) (nlp p t))
      else
        let t1 = protect_abbrev u False t;
            sentences = split_sentences [] [] False t1
        in map (\<lambda>s. py_strip (py_replace abbrev_marker [46] s))
               (filter (\<lambda>s. py_strip s \<noteq> []) sentences))"

subsection \<open>process_document\<close>

definition title_chunk :: "pstr \<Rightarrow> pydict \<Rightarrow> TextChunk" where
  "title_chunk title md =
     new_TextChunk (py_strip title) 0 (int (length (py_split title))) (int (length title))
       (s2p ''title'') [s2p ''titre'']
       (dict_set (dict_update [] md) (s2p ''is_title'') (PyBool True))"

definition process_document ::
  "unicode_db \<Rightarrow> TextProcessor \<Rightarrow> pstr \<Rightarrow> pstr \<Rightarrow> pydict option \<Rightarrow> TextChunk list" where
  "process_document u p title content metadata_arg =
     (let md = (case metadata_arg of None \<Rightarrow> [] | Some m \<Rightarrow> m);
          clean_content = clean_text content
      in if int (length clean_content) < min_chunk_size p then []
         else
           let title_chunks =
                 (if title \<noteq> [] \<and> length (py_strip title) > 10 then [title_chunk title md]
                  else []);
               sentences = smart_split_sentences u p clean_content
           in if sentences = [] then title_chunks
              else
                let content_chunks = create_chunks_with_overlap u p sentences
                in title_chunks @
                   map (\<lambda>chunk. chunk \<lparr> metadata := dict_update (metadata chunk) md,
                                        chunk_index := chunk_index chunk + int (length title_chunks) \<rparr>)
                       content_chunks)"

subsection \<open>detect_sections\<close>

definition is_upper_AZ :: "nat \<Rightarrow> bool" where
  "is_upper_AZ c = (65 \<le> c \<and> c \<le> 90)"

text \<open>\<open>after_spaces s\<close>: what follows \<^verbatim>\<open>\s+\<close> at the start of \<open>s\<close>, if it matches.\<close>

definition after_spaces :: "pstr \<Rightarrow> pstr option" where
  "after_spaces s = (if takeWhile is_space s = [] then None else Some (dropWhile is_space s))"

definition starts_with :: "(nat \<Rightarrow> bool) \<Rightarrow> pstr \<Rightarrow> bool" where
  "starts_with P s = (case s of [] \<Rightarrow> False | c # r \<Rightarrow> P c)"

text \<open>
  The six \<^verbatim>\<open>section_patterns\<close>, each as \<^verbatim>\<open>re.match(pattern, line)\<close>, in the order of
  the list.
\<close>

definition section_patterns :: "(unicode_db \<Rightarrow> pstr \<Rightarrow> bool) list" where
  "section_patterns =
    [\<lambda>u s. (case s of [] \<Rightarrow> False
            | c # r \<Rightarrow> is_upper_AZ c \<and> r \<noteq> [] \<and> last r = 58 \<and> 46 \<notin> set (butlast r)),
     \<lambda>u s. takeWhile (re_digit u) s \<noteq> [] \<and>
            (case dropWhile (re_digit u) s of [] \<Rightarrow> False
             | c # r \<Rightarrow> c = 46 \<and>
                 (case after_spaces r of None \<Rightarrow> False | Some r' \<Rightarrow> starts_with is_upper_AZ r')),
     \<lambda>u s. (case s of a # b # r \<Rightarrow> is_upper_AZ a \<and> is_upper_AZ b | _ \<Rightarrow> False),
     \<lambda>u s. (case dropWhile is_space s of [] \<Rightarrow> False
            | c # r \<Rightarrow> c = 45 \<and>
                (case after_spaces r of None \<Rightarrow> False | Some r' \<Rightarrow> starts_with is_upper_AZ r')),
     \<lambda>u s. prefix (s2p ''Article'') s \<and>
            (case after_spaces (drop 7 s) of None \<Rightarrow> False
             | Some r' \<Rightarrow> starts_with (re_digit u) r'),
     \<lambda>u s. prefix (s2p ''Chapitre'') s \<and>
            (case after_spaces (drop 8 s) of None \<Rightarrow> False
             | Some r' \<Rightarrow> starts_with (\<lambda>c. c = 73 \<or> c = 86 \<or> c = 88) r')]"

text \<open>\<^verbatim>\<open>re.match(r'^\s*[-\<bullet>*]\s+', line)\<close>; the bullet is U+2022.\<close>

definition list_item_match :: "pstr \<Rightarrow> bool" where
  "list_item_match s =
     (case dropWhile is_space s of [] \<Rightarrow> False
      | c # r \<Rightarrow> (c = 45 \<or> c = 8226 \<or> c = 42) \<and> after_spaces r \<noteq> None)"

text \<open>\<^verbatim>\<open>text.split('\n')\<close>, with the piece read so far in \<open>acc\<close>.\<close>

fun split_lines :: "pstr \<Rightarrow> pstr \<Rightarrow> pstr list" where
  "split_lines acc [] = [acc]"
| "split_lines acc (c # cs) =
     (if c = 10 then acc # split_lines [] cs else split_lines (acc @ [c]) cs)"

definition line_sections :: "unicode_db \<Rightarrow> nat \<times> pstr \<Rightarrow> (nat \<times> pstr) list" where
  "line_sections u il =
     (let i = fst il; line_stripped = py_strip (snd il)
      in if line_stripped = [] then []
         else (if list_ex (\<lambda>pattern. pattern u line_stripped) section_patterns
               then [(i, s2p ''section_header'')] else []) @
              (if list_item_match line_stripped then [(i, s2p ''list_item'')] else []) @
              (if length line_stripped < 100 \<and> line_stripped \<noteq> [] \<and> last line_stripped = 58
               then [(i, s2p ''subsection'')] else []))"

definition detect_sections :: "unicode_db \<Rightarrow> pstr \<Rightarrow> (nat \<times> pstr) list" where
  "detect_sections u t =
     (let lines = split_lines [] t
      in concat (map (line_sections u) (zip [0..<length lines] lines)))"

subsection \<open>get_processing_stats\<close>

record processing_stats =
  total_chunks :: int
  total_characters :: int
  total_words :: int
  avg_chunk_size :: int
  chunk_types :: "(pstr \<times> int) list"
  size_small :: int
  size_medium :: int
  size_large :: int

text \<open>\<^verbatim>\<open>chunk_types[t] = chunk_types.get(t, 0) + 1\<close>, on a dict in insertion order.\<close>

fun count_type :: "(pstr \<times> int) list \<Rightarrow> pstr \<Rightarrow> (pstr \<times> int) list" where
  "count_type [] ty = [(ty, 1)]"
| "count_type ((k, n) # d) ty = (if k = ty then (k, n + 1) # d else (k, n) # count_type d ty)"

text \<open>The empty dict returned for no chunks is \<open>None\<close>.\<close>

definition get_processing_stats :: "TextChunk list \<Rightarrow> processing_stats option" where
  "get_processing_stats cs =
     (if cs = [] then None
      else
        let total_chars = sum_list (map char_count cs);
            total_wds = sum_list (map word_count cs)
        in Some \<lparr> total_chunks = int (length cs),
                  total_characters = total_chars,
                  total_words = total_wds,
                  avg_chunk_size = total_chars div int (length cs),
                  chunk_types = foldl count_type [] (map chunk_type cs),
                  size_small = int (length (filter (\<lambda>c. char_count c < 200) cs)),
                  size_medium =
                    int (length (filter (\<lambda>c. 200 \<le> char_count c \<and> char_count c \<le> 400) cs)),
                  size_large = int (length (filter (\<lambda>c. char_count c > 400) cs)) \<rparr>)"

subsection \<open>The processor as an object\<close>

text \<open>
  A call of a public method with its arguments, what it returns, and the processor after
  the call. No method assigns to an attribute of \<^verbatim>\<open>self\<close>, so the processor after a call
  is the processor before it.
\<close>

datatype method_call =
    Clean_text pstr
  | Detect_sections pstr
  | Smart_split_sentences pstr
  | Classify_chunk_content pstr
  | Create_chunks_with_overlap "pstr list"
  | Process_document pstr pstr "pydict option"
  | Get_processing_stats "TextChunk list"

datatype returned =
    Ret_str pstr
  | Ret_sections "(nat \<times> pstr) list"
  | Ret_strs "pstr list"
  | Ret_chunks "TextChunk list"
  | Ret_stats "processing_stats option"

fun invoke :: "unicode_db \<Rightarrow> TextProcessor \<Rightarrow> method_call \<Rightarrow> TextProcessor \<times> returned" where
  "invoke u p (Clean_text t) = (p, Ret_str (clean_text t))"
| "invoke u p (Detect_sections t) = (p, Ret_sections (detect_sections u t))"
| "invoke u p (Smart_split_sentences t) = (p, Ret_strs (smart_split_sentences u p t))"
| "invoke u p (Classify_chunk_content t) = (p, Ret_strs (classify_chunk_content u p t))"
| "invoke u p (Create_chunks_with_overlap ss) = (p, Ret_chunks (create_chunks_with_overlap u p ss))"
| "invoke u p (Process_document title content md) =
     (p, Ret_chunks (process_document u p title content md))"
| "invoke u p (Get_processing_stats cs) = (p, Ret_stats (get_processing_stats cs))"

fun invoke_all :: "unicode_db \<Rightarrow> TextProcessor \<Rightarrow> method_call list \<Rightarrow> TextProcessor" where
  "invoke_all u p [] = p"
| "invoke_all u p (c # cs) = invoke_all u (fst (invoke u p c)) cs"

section \<open>BaseExtractor.classify_domain\<close>

datatype py_error = ValueError

definition domain_keywords :: "(pstr \<times> pstr list) list" where
  "domain_keywords =
    [(s2p ''juridique'',
        [s2p ''droit'', s2p ''loi'', s2p ''code'', s2p ''juridique'', s2p ''tribunal'',
         s2p ''justice'', s2p ''contrat'', s2p ''responsabilit'' @ [233]]),
     (s2p ''rh'',
        [s2p ''salari'' @ [233], s2p ''emploi'', s2p ''recrutement'', s2p ''formation'',
         s2p ''rh'', s2p ''ressources humaines'', s2p ''travail'']),
     (s2p ''economique'',
        [[233] @ s2p ''conomie'', s2p ''finance'', s2p ''aide'', s2p ''subvention'',
         s2p ''cr'' @ [233] @ s2p ''dit'', s2p ''imp'' @ [244] @ s2p ''t'', s2p ''fiscal''])]"

text \<open>
  \<^verbatim>\<open>max(xs)\<close> and \<^verbatim>\<open>max(d, key=d.get)\<close>: the first of the greatest elements, a
  \<^verbatim>\<open>ValueError\<close> on an empty argument. \<open>max_from f b xs\<close> is the loop of \<^verbatim>\<open>max\<close> with the
  best element so far in \<open>b\<close>: only a strictly greater element replaces it.
\<close>

fun max_from :: "('a \<Rightarrow> int) \<Rightarrow> 'a \<Rightarrow> 'a list \<Rightarrow> 'a" where
  "max_from f b [] = b"
| "max_from f b (x # xs) = max_from f (if f x > f b then x else b) xs"

definition py_max_key :: "('a \<Rightarrow> int) \<Rightarrow> 'a list \<Rightarrow> py_error + 'a" where
  "py_max_key f xs = (case xs of [] \<Rightarrow> Inl ValueError | x # r \<Rightarrow> Inr (max_from f x r))"

definition keyword_score :: "pstr \<Rightarrow> pstr list \<Rightarrow> int" where
  "keyword_score text_to_analyze ws = int (length (filter (\<lambda>w. contains w text_to_analyze) ws))"

definition classify_domain :: "unicode_db \<Rightarrow> pstr \<Rightarrow> pstr \<Rightarrow> pstr \<Rightarrow> py_error + pstr" where
  "classify_domain u title content url =
     (let text_to_analyze = str_lower u (title @ [32] @ take 500 content);
          domain_scores =
            map (\<lambda>(domain, ws). (domain, keyword_score text_to_analyze ws)) domain_keywords
      in case py_max_key id (map snd domain_scores) of
           Inl e \<Rightarrow> Inl e
         | Inr m \<Rightarrow>
             if m > 0 then
               (case py_max_key snd domain_scores of
                  Inl e \<Rightarrow> Inl e
                | Inr best \<Rightarrow> Inr (fst best))
             else Inr (s2p ''autre''))"

section \<open>Notions of the statements and proofs\<close>

text \<open>The chunk that both paths of \<^verbatim>\<open>create_chunks_with_overlap\<close> construct from a text \<open>t\<close>:
  the counts and the keywords are computed from \<open>t\<close>, the type is \<^verbatim>\<open>'content'\<close>.\<close>

definition closed_chunk :: "unicode_db \<Rightarrow> TextProcessor \<Rightarrow> int \<Rightarrow> pstr \<Rightarrow> pydict \<Rightarrow> TextChunk" where
  "closed_chunk u p i t md =
     new_TextChunk t i (int (length (py_split t))) (int (length t)) (s2p ''content'')
       (classify_chunk_content u p t) md"

text \<open>The chunks appended so far are numbered from 0, and the next index is their number.\<close>

definition indexed :: "chunker \<Rightarrow> bool" where
  "indexed st = (map chunk_index (chunks st) = map int [0..<length (chunks st)]
                 \<and> next_index st = int (length (chunks st)))"

text \<open>A chunk of type \<^verbatim>\<open>'content'\<close> whose counts are those of its text.\<close>

definition content_chunk :: "TextChunk \<Rightarrow> bool" where
  "content_chunk c = (chunk_type c = s2p ''content'' \<and> char_count c = int (length (text c))
                       \<and> word_count c = int (length (py_split (text c))))"

text \<open>A non-empty string with no whitespace at either end.\<close>

definition trimmed :: "pstr \<Rightarrow> bool" where
  "trimmed s = (s \<noteq> [] \<and> \<not> is_space (hd s) \<and> \<not> is_space (last s))"

text \<open>The buffer is empty or trimmed, and every chunk appended so far reaches the minimum size.\<close>

definition floor_inv :: "TextProcessor \<Rightarrow> chunker \<Rightarrow> bool" where
  "floor_inv p st = ((current_chunk st = [] \<or> trimmed (current_chunk st))
                     \<and> list_all (\<lambda>c. min_chunk_size p \<le> char_count c) (chunks st))"

text \<open>The sentence \<open>s\<close> is in the buffer, or a chunk that holds its trimmed text has been
  appended.\<close>

definition carried :: "pstr \<Rightarrow> chunker \<Rightarrow> bool" where
  "carried s st = (sublist s (current_chunk st)
                   \<or> (\<exists>c \<in> set (chunks st). sublist (py_strip s) (text c)))"

text \<open>The list \<^verbatim>\<open>chunks\<close> of \<^verbatim>\<open>process_document\<close> before the content chunks are added: the title
  chunk, or nothing.\<close>

definition doc_title_chunks :: "pstr \<Rightarrow> pydict \<Rightarrow> TextChunk list" where
  "doc_title_chunks title md =
     (if title \<noteq> [] \<and> length (py_strip title) > 10 then [title_chunk title md] else [])"

text \<open>The body of \<^verbatim>\<open>for chunk in content_chunks\<close>, with \<open>n\<close> for \<^verbatim>\<open>len(chunks)\<close>.\<close>

definition with_doc_metadata :: "pydict \<Rightarrow> nat \<Rightarrow> TextChunk \<Rightarrow> TextChunk" where
  "with_doc_metadata md n chunk =
     chunk \<lparr> metadata := dict_update (metadata chunk) md,
             chunk_index := chunk_index chunk + int n \<rparr>"

text \<open>The argument \<^verbatim>\<open>metadata\<close>, an empty dict when it is \<^verbatim>\<open>None\<close>.\<close>

definition arg_metadata :: "pydict option \<Rightarrow> pydict" where
  "arg_metadata mo = (case mo of None \<Rightarrow> [] | Some m \<Rightarrow> m)"

text \<open>The keywords of a domain in the table of \<^verbatim>\<open>classify_domain\<close>.\<close>

definition domain_words :: "pstr \<Rightarrow> pstr list" where
  "domain_words d = (case map_of domain_keywords d of None \<Rightarrow> [] | Some ws \<Rightarrow> ws)"

text \<open>The text \<^verbatim>\<open>classify_domain\<close> analyses.\<close>

definition domain_window :: "unicode_db \<Rightarrow> pstr \<Rightarrow> pstr \<Rightarrow> pstr" where
  "domain_window u title content = str_lower u (title @ [32] @ take 500 content)"

text \<open>The score of a domain: how many of its keywords occur in the analysed text.\<close>

definition domain_score :: "unicode_db \<Rightarrow> pstr \<Rightarrow> pstr \<Rightarrow> pstr \<Rightarrow> nat" where
  "domain_score u title content d =
     card {k \<in> set (domain_words d). sublist k (domain_window u title content)}"

text \<open>Following the words of claim C8: the text analysed is the lower-cased concatenation of
  the title and the first 500 characters of the content, and the score of a domain counts
  its keywords that occur in it.\<close>

definition claimed_domain_window :: "unicode_db \<Rightarrow> pstr \<Rightarrow> pstr \<Rightarrow> pstr" where
  "claimed_domain_window u title content = str_lower u (title @ take 500 content)"

definition claimed_domain_score :: "unicode_db \<Rightarrow> pstr \<Rightarrow> pstr \<Rightarrow> pstr \<Rightarrow> nat" where
  "claimed_domain_score u title content d =
     card {k \<in> set (domain_words d). sublist k (claimed_domain_window u title content)}"

text \<open>A character that no step of the cleaning or of the segmentation touches.\<close>

definition plain_char :: "nat \<Rightarrow> bool" where
  "plain_char c = (\<not> is_space c \<and> \<not> is_punct c \<and> c \<noteq> 8217 \<and> c \<noteq> 8211 \<and> c \<noteq> 8212 \<and> c \<noteq> 60)"

text \<open>The keys of the metadata of a chunk closed inside the loop.\<close>

definition loop_keys :: "pstr list" where
  "loop_keys = [s2p ''sentence_count'', s2p ''has_numbers'', s2p ''has_dates'', s2p ''complexity'']"

section \<open>Facts about the string operations\<close>

lemma contains_sublist: "contains k t = sublist k t"
  by (induction t) (auto simp: sublist_Cons_right)

lemma dropWhile_keeps_suffix:
  assumes "s \<noteq> []" and "\<not> P (hd s)"
  shows "\<exists>y. dropWhile P (x @ s) = y @ s"
proof (cases "\<forall>c \<in> set x. P c")
  case True
  from assms have "dropWhile P s = s" by (cases s) simp_all
  with True have "dropWhile P (x @ s) = [] @ s" by (simp add: dropWhile_append)
  then show ?thesis by blast
next
  case False
  then have "dropWhile P (x @ s) = dropWhile P x @ s" by (auto simp: dropWhile_append)
  then show ?thesis by blast
qed

lemma py_strip_keeps:
  assumes "m \<noteq> []" and "\<not> is_space (hd m)" and "\<not> is_space (last m)"
  shows "\<exists>l r. py_strip (x @ m @ y) = l @ m @ r"
proof -
  from assms have "m @ y \<noteq> []" "\<not> is_space (hd (m @ y))" by simp_all
  then obtain l where l: "dropWhile is_space (x @ m @ y) = l @ m @ y"
    using dropWhile_keeps_suffix [of "m @ y" is_space x] by auto
  from assms have "rev m @ rev l \<noteq> []" "\<not> is_space (hd (rev m @ rev l))"
    by (simp_all add: hd_rev)
  then obtain r where "dropWhile is_space (rev y @ rev m @ rev l) = r @ rev m @ rev l"
    using dropWhile_keeps_suffix [of "rev m @ rev l" is_space "rev y"] by auto
  then have "py_strip (x @ m @ y) = l @ m @ rev r"
    by (simp add: py_strip_def l)
  then show ?thesis by blast
qed

lemma py_strip_keeps_end:
  assumes "m \<noteq> []" and "\<not> is_space (hd m)" and "\<not> is_space (last m)"
  shows "\<exists>l. py_strip (x @ m) = l @ m"
proof -
  from assms obtain l where l: "dropWhile is_space (x @ m) = l @ m"
    using dropWhile_keeps_suffix [of m is_space x] by auto
  from assms have "dropWhile is_space (rev m @ rev l) = rev m @ rev l"
    by (cases "rev m") (simp_all add: hd_rev)
  then have "py_strip (x @ m) = l @ m"
    by (simp add: py_strip_def l)
  then show ?thesis by blast
qed

lemma strip_decomp:
  "dropWhile P s =
     rev (dropWhile P (rev (dropWhile P s))) @ rev (takeWhile P (rev (dropWhile P s)))"
proof -
  have "rev (rev (dropWhile P s)) =
          rev (takeWhile P (rev (dropWhile P s)) @ dropWhile P (rev (dropWhile P s)))"
    by (simp only: takeWhile_dropWhile_id)
  then show ?thesis by (simp only: rev_rev_ident rev_append)
qed

lemma py_strip_parts:
  "\<exists>a b. s = a @ py_strip s @ b"
proof -
  let ?d = "dropWhile is_space s"
  have "?d = py_strip s @ rev (takeWhile is_space (rev ?d))"
    unfolding py_strip_def by (rule strip_decomp)
  moreover have "s = takeWhile is_space s @ ?d" by simp
  ultimately have "s = takeWhile is_space s @ py_strip s @ rev (takeWhile is_space (rev ?d))"
    by simp
  then show ?thesis by blast
qed

lemma py_strip_ends:
  assumes "py_strip s \<noteq> []"
  shows "\<not> is_space (hd (py_strip s))" and "\<not> is_space (last (py_strip s))"
proof -
  let ?d = "dropWhile is_space s"
  let ?e = "dropWhile is_space (rev ?d)"
  from assms have e: "?e \<noteq> []" by (simp add: py_strip_def)
  then have "\<not> is_space (hd ?e)" by (rule hd_dropWhile)
  with e show "\<not> is_space (last (py_strip s))" by (simp add: py_strip_def last_rev)
  from e have d: "?d \<noteq> []" by (cases ?d) simp_all
  then have nd: "\<not> is_space (hd ?d)" by (rule hd_dropWhile)
  have "?d = py_strip s @ rev (takeWhile is_space (rev ?d))"
    unfolding py_strip_def by (rule strip_decomp)
  with assms have "hd ?d = hd (py_strip s)" by (metis hd_append2)
  with nd show "\<not> is_space (hd (py_strip s))" by simp
qed

lemma length_py_strip: "length (py_strip s) \<le> length s"
proof -
  obtain a b where "s = a @ py_strip s @ b" using py_strip_parts by blast
  then have "length s = length a + length (py_strip s) + length b"
    by (metis length_append add.assoc)
  then show ?thesis by simp
qed

lemma sublist_py_strip:
  assumes "py_strip s \<noteq> []"
  shows "sublist (py_strip s) (py_strip (x @ s @ y))"
proof -
  obtain a b where s: "s = a @ py_strip s @ b" using py_strip_parts by blast
  have "x @ s @ y = x @ (a @ py_strip s @ b) @ y" using s by simp
  then have e: "x @ s @ y = (x @ a) @ py_strip s @ (b @ y)" by simp
  obtain l r where "py_strip ((x @ a) @ py_strip s @ (b @ y)) = l @ py_strip s @ r"
    using py_strip_keeps [OF assms py_strip_ends [OF assms]] by blast
  with e have "py_strip (x @ s @ y) = l @ py_strip s @ r" by (simp only:)
  then show ?thesis by (auto simp: sublist_def)
qed

lemma py_strip_id:
  assumes "m \<noteq> []" and "\<not> is_space (hd m)" and "\<not> is_space (last m)"
  shows "py_strip m = m"
proof -
  obtain l where l: "py_strip ([] @ m) = l @ m" using py_strip_keeps_end [OF assms] by blast
  have "length (py_strip m) \<le> length m" by (rule length_py_strip)
  with l show ?thesis by simp
qed

section \<open>The chunker\<close>

lemma closed_chunk_fields:
  "text (closed_chunk u p i t md) = t"
  "chunk_index (closed_chunk u p i t md) = i"
  "char_count (closed_chunk u p i t md) = int (length t)"
  "word_count (closed_chunk u p i t md) = int (length (py_split t))"
  "chunk_type (closed_chunk u p i t md) = s2p ''content''"
  "metadata (closed_chunk u p i t md) = md"
  by (simp_all add: closed_chunk_def new_TextChunk_def)

text \<open>The two outcomes of one iteration.\<close>

lemma absorb_extend:
  assumes "\<not> (int (length (if current_chunk st \<noteq> [] then current_chunk st @ [32] @ x else x))
              > chunk_size p \<and> current_chunk st \<noteq> [])"
  shows "absorb u p st x =
           st \<lparr> current_chunk := (if current_chunk st \<noteq> [] then current_chunk st @ [32] @ x else x) \<rparr>"
  unfolding absorb_def Let_def using assms by (rule if_not_P)

lemma close_chunk_eq:
  "close_chunk u p st =
     (if int (length (py_strip (overlap_buffer st @ [32] @ current_chunk st))) \<ge> min_chunk_size p
      then st \<lparr> chunks := chunks st @
                  [closed_chunk u p (next_index st)
                     (py_strip (overlap_buffer st @ [32] @ current_chunk st))
                     (loop_metadata u (py_strip (overlap_buffer st @ [32] @ current_chunk st)))],
                next_index := next_index st + 1 \<rparr>
      else st)"
  unfolding close_chunk_def closed_chunk_def Let_def by (rule refl)

lemma absorb_close:
  assumes "int (length (current_chunk st @ [32] @ x)) > chunk_size p" and "current_chunk st \<noteq> []"
  shows "absorb u p st x =
           (close_chunk u p st) \<lparr> overlap_buffer := next_overlap p (current_chunk st),
                                  current_chunk := x \<rparr>"
proof -
  from assms have "int (length (if current_chunk st \<noteq> [] then current_chunk st @ [32] @ x else x))
              > chunk_size p \<and> current_chunk st \<noteq> []" by simp
  then show ?thesis unfolding absorb_def Let_def by (rule if_P)
qed

lemma finish_eq:
  "finish u p st =
     (if current_chunk st \<noteq> [] \<and> int (length (current_chunk st)) \<ge> min_chunk_size p
      then chunks st @
           [closed_chunk u p (next_index st)
              (py_strip (overlap_buffer st @ [32] @ current_chunk st))
              (final_metadata (py_strip (overlap_buffer st @ [32] @ current_chunk st)))]
      else chunks st)"
  unfolding finish_def closed_chunk_def Let_def by (rule refl)

lemma absorb_cases:
  obtains
    (extend) "absorb u p st x =
       st \<lparr> current_chunk := (if current_chunk st \<noteq> [] then current_chunk st @ [32] @ x else x) \<rparr>"
  | (close) "absorb u p st x =
       (close_chunk u p st) \<lparr> overlap_buffer := next_overlap p (current_chunk st),
                              current_chunk := x \<rparr>" "current_chunk st \<noteq> []"
proof (cases "int (length (current_chunk st @ [32] @ x)) > chunk_size p \<and> current_chunk st \<noteq> []")
  case True
  then show ?thesis using close absorb_close by blast
next
  case False
  then have "\<not> (int (length (if current_chunk st \<noteq> [] then current_chunk st @ [32] @ x else x))
              > chunk_size p \<and> current_chunk st \<noteq> [])" by auto
  then show ?thesis using extend absorb_extend by blast
qed

subsection \<open>Indices\<close>

lemma indexed_absorb: "indexed st \<Longrightarrow> indexed (absorb u p st x)"
proof (cases rule: absorb_cases [of u p st x])
  case extend
  assume "indexed st"
  with extend show ?thesis by (simp add: indexed_def)
next
  case close
  assume "indexed st"
  then show ?thesis
    unfolding indexed_def close(1) close_chunk_eq by (simp add: closed_chunk_fields)
qed

lemma indexed_foldl: "indexed st \<Longrightarrow> indexed (foldl (absorb u p) st xs)"
  by (induction xs arbitrary: st) (simp_all add: indexed_absorb)

lemma create_chunks_indices:
  "map chunk_index (create_chunks_with_overlap u p ss) =
     map int [0..<length (create_chunks_with_overlap u p ss)]"
proof -
  have "indexed chunker0" by (simp add: indexed_def chunker0_def)
  then have "indexed (foldl (absorb u p) chunker0 ss)" by (rule indexed_foldl)
  then show ?thesis
    unfolding create_chunks_with_overlap_def finish_eq indexed_def
    by (simp add: closed_chunk_fields)
qed

subsection \<open>Every chunk is a content chunk with counts taken from its text\<close>

lemma content_closed_chunk: "content_chunk (closed_chunk u p i t md)"
  by (simp add: content_chunk_def closed_chunk_fields)

lemma content_absorb:
  "list_all content_chunk (chunks st) \<Longrightarrow> list_all content_chunk (chunks (absorb u p st x))"
proof (cases rule: absorb_cases [of u p st x])
  case extend
  assume "list_all content_chunk (chunks st)"
  with extend show ?thesis by simp
next
  case close
  assume "list_all content_chunk (chunks st)"
  then show ?thesis
    unfolding close(1) close_chunk_eq by (simp add: content_closed_chunk)
qed

lemma content_foldl:
  "list_all content_chunk (chunks st) \<Longrightarrow> list_all content_chunk (chunks (foldl (absorb u p) st xs))"
  by (induction xs arbitrary: st) (simp_all add: content_absorb)

lemma create_chunks_content: "list_all content_chunk (create_chunks_with_overlap u p ss)"
proof -
  have "list_all content_chunk (chunks (foldl (absorb u p) chunker0 ss))"
    by (rule content_foldl) (simp add: chunker0_def)
  then show ?thesis
    unfolding create_chunks_with_overlap_def finish_eq by (simp add: content_closed_chunk)
qed

subsection \<open>The size floor\<close>

lemma trimmed_iff: "trimmed s = (s \<noteq> [] \<and> py_strip s = s)"
proof
  assume "trimmed s"
  then show "s \<noteq> [] \<and> py_strip s = s" by (simp add: trimmed_def py_strip_id)
next
  assume "s \<noteq> [] \<and> py_strip s = s"
  then show "trimmed s" using py_strip_ends [of s] by (simp add: trimmed_def)
qed

lemma trimmed_join: "trimmed a \<Longrightarrow> trimmed b \<Longrightarrow> trimmed (a @ 32 # b)"
  by (simp add: trimmed_def)

lemma length_strip_trimmed:
  assumes "trimmed m"
  shows "length m \<le> length (py_strip (x @ m))"
proof -
  from assms obtain l where "py_strip (x @ m) = l @ m"
    using py_strip_keeps_end [of m x] by (auto simp: trimmed_def)
  then show ?thesis by simp
qed

lemma floor_absorb:
  assumes "floor_inv p st" and "trimmed x"
  shows "floor_inv p (absorb u p st x)"
proof (cases rule: absorb_cases [of u p st x])
  case extend
  with assms show ?thesis by (auto simp: floor_inv_def trimmed_join)
next
  case close
  from assms show ?thesis
    unfolding close(1) close_chunk_eq floor_inv_def by (simp add: closed_chunk_fields)
qed

lemma floor_foldl:
  "floor_inv p st \<Longrightarrow> list_all trimmed xs \<Longrightarrow> floor_inv p (foldl (absorb u p) st xs)"
  by (induction xs arbitrary: st) (simp_all add: floor_absorb)

lemma floor_finish:
  assumes "floor_inv p st"
  shows "list_all (\<lambda>c. min_chunk_size p \<le> char_count c) (finish u p st)"
proof (cases "current_chunk st \<noteq> [] \<and> int (length (current_chunk st)) \<ge> min_chunk_size p")
  case True
  with assms have "trimmed (current_chunk st)" by (simp add: floor_inv_def)
  then have "length (current_chunk st)
      \<le> length (py_strip ((overlap_buffer st @ [32]) @ current_chunk st))"
    by (rule length_strip_trimmed)
  with True have "min_chunk_size p
      \<le> int (length (py_strip (overlap_buffer st @ [32] @ current_chunk st)))" by simp
  with True assms show ?thesis
    unfolding finish_eq floor_inv_def by (simp add: closed_chunk_fields)
next
  case False
  with assms show ?thesis unfolding finish_eq floor_inv_def by auto
qed

lemma create_chunks_floor:
  assumes "list_all trimmed ss"
  shows "list_all (\<lambda>c. min_chunk_size p \<le> char_count c) (create_chunks_with_overlap u p ss)"
proof -
  have "floor_inv p chunker0" by (simp add: floor_inv_def chunker0_def)
  then have "floor_inv p (foldl (absorb u p) chunker0 ss)" using assms by (rule floor_foldl)
  then show ?thesis unfolding create_chunks_with_overlap_def by (rule floor_finish)
qed

subsection \<open>A sentence stays whole\<close>

lemma sublist_length: "sublist a b \<Longrightarrow> length a \<le> length b"
  by (auto simp: sublist_def)

lemma carried_absorb_self: "carried s (absorb u p st s)"
proof (cases rule: absorb_cases [of u p st s])
  case extend
  have "sublist s ((current_chunk st @ [32]) @ s @ [])"
    unfolding sublist_def by blast
  moreover have "sublist s s" by simp
  ultimately
  have "sublist s (if current_chunk st \<noteq> [] then current_chunk st @ [32] @ s else s)"
    by simp
  with extend show ?thesis by (simp add: carried_def)
next
  case close
  then show ?thesis by (simp add: carried_def)
qed

lemma carried_absorb:
  assumes "carried s st" and "py_strip s \<noteq> []"
    and "min_chunk_size p \<le> int (length (py_strip s))"
  shows "carried s (absorb u p st x)"
proof (cases "\<exists>c \<in> set (chunks st). sublist (py_strip s) (text c)")
  case True
  then show ?thesis
  proof (cases rule: absorb_cases [of u p st x])
    case extend
    with True show ?thesis by (simp add: carried_def)
  next
    case close
    from True show ?thesis
      unfolding carried_def close(1) close_chunk_eq by auto
  qed
next
  case False
  with assms have held: "sublist s (current_chunk st)" by (simp add: carried_def)
  then obtain a b where ab: "current_chunk st = a @ s @ b" by (auto simp: sublist_def)
  from assms have "s \<noteq> []" by (auto simp: py_strip_def)
  with ab have ne: "current_chunk st \<noteq> []" by simp
  show ?thesis
  proof (cases rule: absorb_cases [of u p st x])
    case extend
    from ab have "current_chunk st @ [32] @ x = a @ s @ (b @ [32] @ x)" by simp
    then have "sublist s (current_chunk st @ [32] @ x)" unfolding sublist_def by blast
    with extend ne show ?thesis by (simp add: carried_def)
  next
    case close
    let ?t = "py_strip (overlap_buffer st @ [32] @ current_chunk st)"
    have "overlap_buffer st @ [32] @ current_chunk st = (overlap_buffer st @ [32] @ a) @ s @ b"
      using ab by simp
    then have sub: "sublist (py_strip s) ?t"
      using sublist_py_strip [OF assms(2), of "overlap_buffer st @ [32] @ a" b] by simp
    then have "length (py_strip s) \<le> length ?t" by (rule sublist_length)
    with assms have "min_chunk_size p \<le> int (length ?t)" by simp
    with sub show ?thesis
      unfolding carried_def close(1) close_chunk_eq by (simp add: closed_chunk_fields)
  qed
qed

lemma carried_foldl:
  assumes "py_strip s \<noteq> []" and "min_chunk_size p \<le> int (length (py_strip s))"
  shows "carried s st \<Longrightarrow> carried s (foldl (absorb u p) st xs)"
  by (induction xs arbitrary: st) (simp_all add: carried_absorb [OF _ assms])

lemma carried_finish:
  assumes "carried s st" and "py_strip s \<noteq> []"
    and "min_chunk_size p \<le> int (length (py_strip s))"
  shows "\<exists>c \<in> set (finish u p st). sublist (py_strip s) (text c)"
proof (cases "\<exists>c \<in> set (chunks st). sublist (py_strip s) (text c)")
  case True
  then show ?thesis unfolding finish_eq by auto
next
  case False
  with assms have held: "sublist s (current_chunk st)" by (simp add: carried_def)
  then obtain a b where ab: "current_chunk st = a @ s @ b" by (auto simp: sublist_def)
  from assms have "s \<noteq> []" by (auto simp: py_strip_def)
  with ab have ne: "current_chunk st \<noteq> []" by simp
  from held have "length s \<le> length (current_chunk st)" by (rule sublist_length)
  moreover have "length (py_strip s) \<le> length s" by (rule length_py_strip)
  ultimately have big: "min_chunk_size p \<le> int (length (current_chunk st))" using assms by simp
  let ?t = "py_strip (overlap_buffer st @ [32] @ current_chunk st)"
  have "overlap_buffer st @ [32] @ current_chunk st = (overlap_buffer st @ [32] @ a) @ s @ b"
    using ab by simp
  then have sub: "sublist (py_strip s) ?t"
    using sublist_py_strip [OF assms(2), of "overlap_buffer st @ [32] @ a" b] by simp
  with ne big show ?thesis unfolding finish_eq by (simp add: closed_chunk_fields)
qed

lemma create_chunks_keep_sentence:
  assumes "s \<in> set ss" and "py_strip s \<noteq> []"
    and "min_chunk_size p \<le> int (length (py_strip s))"
  shows "\<exists>c \<in> set (create_chunks_with_overlap u p ss). sublist (py_strip s) (text c)"
proof -
  from assms(1) obtain pre post where "ss = pre @ s # post" by (auto simp: in_set_conv_decomp)
  then have "foldl (absorb u p) chunker0 ss =
      foldl (absorb u p) (absorb u p (foldl (absorb u p) chunker0 pre) s) post" by simp
  moreover have "carried s (absorb u p (foldl (absorb u p) chunker0 pre) s)"
    by (rule carried_absorb_self)
  ultimately have "carried s (foldl (absorb u p) chunker0 ss)"
    using carried_foldl [OF assms(2,3)] by simp
  then show ?thesis
    unfolding create_chunks_with_overlap_def using assms(2,3) by (rule carried_finish)
qed

subsection \<open>Dictionaries\<close>

lemma map_of_dict_set: "map_of (dict_set d k v) k' = (if k' = k then Some v else map_of d k')"
  by (induction d k v rule: dict_set.induct) auto

lemma map_of_dict_update:
  "distinct (map fst e) \<Longrightarrow>
   map_of (dict_update d e) k = (case map_of e k of Some v \<Rightarrow> Some v | None \<Rightarrow> map_of d k)"
proof (induction d e rule: dict_update.induct)
  case (1 d)
  then show ?case by simp
next
  case (2 d k' v e)
  then have "k' \<notin> fst ` set e" by simp
  then have "map_of e k' = None" by (simp add: map_of_eq_None_iff)
  with 2 show ?case by (auto simp: map_of_dict_set split: option.splits)
qed

lemma dict_get_update:
  "distinct (map fst e) \<Longrightarrow>
   dict_get (dict_update d e) k = (case dict_get e k of Some v \<Rightarrow> Some v | None \<Rightarrow> dict_get d k)"
  unfolding dict_get_def by (rule map_of_dict_update)

subsection \<open>process_document\<close>

lemma process_document_eq:
  "process_document u p title content mo =
     (if int (length (clean_text content)) < min_chunk_size p then []
      else if smart_split_sentences u p (clean_text content) = []
      then doc_title_chunks title (arg_metadata mo)
      else doc_title_chunks title (arg_metadata mo) @
           map (with_doc_metadata (arg_metadata mo) (length (doc_title_chunks title (arg_metadata mo))))
               (create_chunks_with_overlap u p (smart_split_sentences u p (clean_text content))))"
  unfolding process_document_def doc_title_chunks_def with_doc_metadata_def arg_metadata_def Let_def
  by (rule refl)

lemma title_chunk_fields:
  "chunk_index (title_chunk title md) = 0"
  "chunk_type (title_chunk title md) = s2p ''title''"
  "text (title_chunk title md) = py_strip title"
  by (simp_all add: title_chunk_def new_TextChunk_def)

lemma with_doc_metadata_fields:
  "chunk_index (with_doc_metadata md n c) = chunk_index c + int n"
  "chunk_type (with_doc_metadata md n c) = chunk_type c"
  "text (with_doc_metadata md n c) = text c"
  "char_count (with_doc_metadata md n c) = char_count c"
  "word_count (with_doc_metadata md n c) = word_count c"
  "metadata (with_doc_metadata md n c) = dict_update (metadata c) md"
  by (simp_all add: with_doc_metadata_def)

lemma length_doc_title_chunks: "length (doc_title_chunks title md) \<le> 1"
  by (simp add: doc_title_chunks_def)

lemma shifted_indices:
  assumes "map chunk_index cs = map int [0..<length cs]"
  shows "map chunk_index (map (with_doc_metadata md k) cs) = map int [k..<k + length cs]"
proof -
  have "map chunk_index (map (with_doc_metadata md k) cs) = map (\<lambda>i. i + int k) (map chunk_index cs)"
    by (simp add: with_doc_metadata_fields comp_def)
  also have "\<dots> = map (\<lambda>i. int (i + k)) [0..<length cs]"
    by (simp add: assms comp_def)
  also have "\<dots> = map int (map (\<lambda>i. i + k) [0..<length cs])" by (simp add: comp_def)
  also have "map (\<lambda>i. i + k) [0..<length cs] = [k..<k + length cs]"
    by (simp add: map_add_upt add.commute)
  finally show ?thesis .
qed

lemma title_not_content: "s2p ''content'' \<noteq> s2p ''title''"
  by (simp add: s2p_def)

lemma content_not_title:
  "list_all content_chunk cs \<Longrightarrow>
   filter (\<lambda>c. chunk_type c = s2p ''title'') (map (with_doc_metadata md k) cs) = []"
  by (induction cs) (simp_all add: with_doc_metadata_fields content_chunk_def title_not_content)

lemma doc_indices:
  assumes "map chunk_index cs = map int [0..<length cs]"
  shows "map chunk_index (doc_title_chunks title md @
           map (with_doc_metadata md (length (doc_title_chunks title md))) cs) =
         map int [0..<length (doc_title_chunks title md @
           map (with_doc_metadata md (length (doc_title_chunks title md))) cs)]"
proof (cases "title \<noteq> [] \<and> length (py_strip title) > 10")
  case True
  then have t: "doc_title_chunks title md = [title_chunk title md]" by (simp add: doc_title_chunks_def)
  have "[0..<Suc (length cs)] = 0 # [1..<1 + length cs]"
    using upt_conv_Cons [of 0 "Suc (length cs)"] by simp
  then show ?thesis
    unfolding t using shifted_indices [OF assms, of md 1] by (simp add: title_chunk_fields)
next
  case False
  then have t: "doc_title_chunks title md = []" by (simp add: doc_title_chunks_def)
  show ?thesis unfolding t using shifted_indices [OF assms, of md 0] by simp
qed

text \<open>
  Claim C3. For every title, content and metadata, the \<^verbatim>\<open>chunk_index\<close> values of the
  sequence \<^verbatim>\<open>process_document\<close> returns are \<open>0, 1, \<dots>, N - 1\<close> in this order, for its length
  \<open>N\<close>. No chunk behind the first one has \<^verbatim>\<open>chunk_type\<close> \<^verbatim>\<open>'title'\<close>. When the title chunk
  is emitted (a non-empty title of more than 10 characters once trimmed, and a cleaned
  content that reaches the minimum size) the first chunk has type \<^verbatim>\<open>'title'\<close> and index
  \<open>0\<close>; otherwise no chunk has type \<^verbatim>\<open>'title'\<close>.
\<close>

theorem process_document_indices:
  "map chunk_index (process_document u p title content md) =
     map int [0..<length (process_document u p title content md)]
   \<and> filter (\<lambda>c. chunk_type c = s2p ''title'') (tl (process_document u p title content md)) = []
   \<and> (if title \<noteq> [] \<and> 10 < length (py_strip title)
           \<and> min_chunk_size p \<le> int (length (clean_text content))
       then map chunk_type (take 1 (process_document u p title content md)) = [s2p ''title'']
          \<and> map chunk_index (take 1 (process_document u p title content md)) = [0]
       else filter (\<lambda>c. chunk_type c = s2p ''title'') (process_document u p title content md) = [])"
proof -
  let ?cc = "create_chunks_with_overlap u p (smart_split_sentences u p (clean_text content))"
  let ?m = "arg_metadata md"
  let ?t = "doc_title_chunks title ?m"
  have idx: "map chunk_index ?cc = map int [0..<length ?cc]" by (rule create_chunks_indices)
  have cont: "filter (\<lambda>c. chunk_type c = s2p ''title'') (map (with_doc_metadata ?m (length ?t)) ?cc) = []"
    by (rule content_not_title) (rule create_chunks_content)
  have t0: "map chunk_index ?t = map int [0..<length ?t]"
    by (simp add: doc_title_chunks_def title_chunk_fields)
  have tl_t: "tl ?t = []" by (simp add: doc_title_chunks_def)
  have tl_c: "filter (\<lambda>c. chunk_type c = s2p ''title'')
                 (tl (map (with_doc_metadata ?m (length ?t)) ?cc)) = []"
    using cont by (cases ?cc) (simp_all split: if_splits)
  have first: "map chunk_index (process_document u p title content md) =
     map int [0..<length (process_document u p title content md)]"
    unfolding process_document_eq using doc_indices [OF idx, of title ?m] t0 by simp
  have second: "filter (\<lambda>c. chunk_type c = s2p ''title'')
      (tl (process_document u p title content md)) = []"
    unfolding process_document_eq using tl_t tl_c cont
    by (cases ?t) (simp_all add: doc_title_chunks_def split: if_splits)
  have third: "(if title \<noteq> [] \<and> 10 < length (py_strip title)
           \<and> min_chunk_size p \<le> int (length (clean_text content))
       then map chunk_type (take 1 (process_document u p title content md)) = [s2p ''title'']
          \<and> map chunk_index (take 1 (process_document u p title content md)) = [0]
       else filter (\<lambda>c. chunk_type c = s2p ''title'') (process_document u p title content md) = [])"
    unfolding process_document_eq using cont
    by (simp add: doc_title_chunks_def title_chunk_fields)
  from first second third show ?thesis by blast
qed

text \<open>
  Claim C9. Every content chunk that \<^verbatim>\<open>process_document\<close> returns is a chunk \<open>a\<close> of the
  assembler with the caller's metadata merged in by \<^verbatim>\<open>chunk.metadata.update(metadata)\<close>:
  looking a key up gives the caller's value when the caller supplied the key, also when
  the key is one of the assembler's structural flags, and the assembler's value otherwise.
  The caller's metadata is a dict, so its keys are distinct.
\<close>

theorem process_document_metadata_precedence:
  assumes "distinct (map fst md)"
    and "c \<in> set (process_document u p title content (Some md))"
    and "chunk_type c = s2p ''content''"
  shows "\<exists>a \<in> set (create_chunks_with_overlap u p (smart_split_sentences u p (clean_text content))).
           text c = text a
           \<and> (\<forall>k. dict_get (metadata c) k =
                 (case dict_get md k of Some v \<Rightarrow> Some v | None \<Rightarrow> dict_get (metadata a) k))"
proof -
  let ?cc = "create_chunks_with_overlap u p (smart_split_sentences u p (clean_text content))"
  let ?t = "doc_title_chunks title md"
  have "c \<notin> set ?t"
    using assms(3) title_not_content
    by (auto simp: doc_title_chunks_def title_chunk_fields split: if_splits)
  with assms(2) have "c \<in> set (map (with_doc_metadata md (length ?t)) ?cc)"
    unfolding process_document_eq arg_metadata_def by (auto split: if_splits)
  then obtain a where a: "a \<in> set ?cc" and c: "c = with_doc_metadata md (length ?t) a" by auto
  have "text c = text a" by (simp add: c with_doc_metadata_fields)
  moreover have "\<forall>k. dict_get (metadata c) k =
      (case dict_get md k of Some v \<Rightarrow> Some v | None \<Rightarrow> dict_get (metadata a) k)"
    by (simp add: c with_doc_metadata_fields dict_get_update [OF assms(1)])
  ultimately show ?thesis using a by blast
qed

subsection \<open>The processor's attributes\<close>

lemma invoke_self: "fst (invoke u p c) = p"
  by (cases c) simp_all

lemma invoke_all_self: "invoke_all u p cs = p"
  by (induction cs arbitrary: p) (simp_all add: invoke_self)

text \<open>
  Claim C10. A processor constructed with any \<^verbatim>\<open>chunk_size\<close> and \<^verbatim>\<open>overlap\<close>, with or
  without spaCy, has \<^verbatim>\<open>min_chunk_size = 100\<close>, and it still has after any sequence of calls
  of its methods, whatever their arguments.
\<close>

theorem min_chunk_size_fixed:
  "min_chunk_size (init cs ov spacy_model) = 100
   \<and> min_chunk_size (invoke_all u (init cs ov spacy_model) calls) = 100"
  by (simp add: invoke_all_self init_def)

subsection \<open>classify_domain\<close>

lemma keyword_score_card:
  "distinct ws \<Longrightarrow> keyword_score w ws = int (card {k \<in> set ws. sublist k w})"
proof -
  assume "distinct ws"
  then have "length (filter (\<lambda>k. contains k w) ws) = card ({k. contains k w} \<inter> set ws)"
    by (rule distinct_length_filter)
  moreover have "{k. contains k w} \<inter> set ws = {k \<in> set ws. sublist k w}"
    by (auto simp: contains_sublist)
  ultimately show ?thesis by (simp add: keyword_score_def)
qed

lemma domain_keywords_eq:
  "domain_keywords =
     [(s2p ''juridique'', domain_words (s2p ''juridique'')),
      (s2p ''rh'', domain_words (s2p ''rh'')),
      (s2p ''economique'', domain_words (s2p ''economique''))]"
  by (simp add: domain_words_def domain_keywords_def s2p_def)

lemma distinct_domain_words:
  "distinct (domain_words (s2p ''juridique''))"
  "distinct (domain_words (s2p ''rh''))"
  "distinct (domain_words (s2p ''economique''))"
  by (simp_all add: domain_words_def domain_keywords_def s2p_def)

lemma max_from_three:
  "max_from f a [b, c] =
     (if f b \<le> f a \<and> f c \<le> f a then a else if f c \<le> f b then b else c)"
  by auto

lemma classify_domain_by_scores:
  "classify_domain u title content url =
     Inr (if keyword_score (domain_window u title content) (domain_words (s2p ''juridique'')) = 0
             \<and> keyword_score (domain_window u title content) (domain_words (s2p ''rh'')) = 0
             \<and> keyword_score (domain_window u title content) (domain_words (s2p ''economique'')) = 0
          then s2p ''autre''
          else if keyword_score (domain_window u title content) (domain_words (s2p ''rh''))
                    \<le> keyword_score (domain_window u title content) (domain_words (s2p ''juridique''))
                  \<and> keyword_score (domain_window u title content) (domain_words (s2p ''economique''))
                    \<le> keyword_score (domain_window u title content) (domain_words (s2p ''juridique''))
          then s2p ''juridique''
          else if keyword_score (domain_window u title content) (domain_words (s2p ''economique''))
                    \<le> keyword_score (domain_window u title content) (domain_words (s2p ''rh''))
          then s2p ''rh''
          else s2p ''economique'')"
proof -
  define w where "w = str_lower u (title @ [32] @ take 500 content)"
  define j where "j = keyword_score w (domain_words (s2p ''juridique''))"
  define r where "r = keyword_score w (domain_words (s2p ''rh''))"
  define e where "e = keyword_score w (domain_words (s2p ''economique''))"
  have scores: "map (\<lambda>(domain, ws). (domain, keyword_score w ws)) domain_keywords =
      [(s2p ''juridique'', j), (s2p ''rh'', r), (s2p ''economique'', e)]"
    by (subst domain_keywords_eq) (simp add: j_def r_def e_def)
  have "classify_domain u title content url =
      (case py_max_key id [j, r, e] of
         Inl err \<Rightarrow> Inl err
       | Inr m \<Rightarrow>
           if m > 0 then
             (case py_max_key snd [(s2p ''juridique'', j), (s2p ''rh'', r), (s2p ''economique'', e)] of
                Inl err \<Rightarrow> Inl err
              | Inr best \<Rightarrow> Inr (fst best))
           else Inr (s2p ''autre''))"
    unfolding classify_domain_def Let_def w_def [symmetric] scores by simp
  also have "\<dots> =
      Inr (if j = 0 \<and> r = 0 \<and> e = 0 then s2p ''autre''
           else if r \<le> j \<and> e \<le> j then s2p ''juridique''
           else if e \<le> r then s2p ''rh'' else s2p ''economique'')"
  proof -
    have "0 \<le> j" "0 \<le> r" "0 \<le> e" by (simp_all add: j_def r_def e_def keyword_score_def)
    then show ?thesis by (auto simp: py_max_key_def)
  qed
  finally show ?thesis by (simp add: j_def r_def e_def w_def domain_window_def)
qed

lemma domain_score_eq:
  "int (domain_score u title content (s2p ''juridique'')) =
     keyword_score (domain_window u title content) (domain_words (s2p ''juridique''))"
  "int (domain_score u title content (s2p ''rh'')) =
     keyword_score (domain_window u title content) (domain_words (s2p ''rh''))"
  "int (domain_score u title content (s2p ''economique'')) =
     keyword_score (domain_window u title content) (domain_words (s2p ''economique''))"
  by (simp_all add: domain_score_def keyword_score_card distinct_domain_words)

text \<open>
  Claim C8, amended. \<^verbatim>\<open>classify_domain\<close> never raises. With the score of a domain the number
  of the distinct keywords of that domain that occur as substrings of the lower-cased
  \<^verbatim>\<open>title + " " + content[:500]\<close> (the title, one space, and the first 500 characters of
  the content), it returns \<^verbatim>\<open>'autre'\<close> when the three scores are zero, and otherwise the
  domain of the greatest score, the first in the order \<^verbatim>\<open>'juridique'\<close>, \<^verbatim>\<open>'rh'\<close>,
  \<^verbatim>\<open>'economique'\<close> among equal scores. The URL plays no part.
\<close>

theorem classify_domain_spec:
  "classify_domain u title content url =
     Inr (if domain_score u title content (s2p ''juridique'') = 0
             \<and> domain_score u title content (s2p ''rh'') = 0
             \<and> domain_score u title content (s2p ''economique'') = 0
          then s2p ''autre''
          else if domain_score u title content (s2p ''rh'')
                    \<le> domain_score u title content (s2p ''juridique'')
                  \<and> domain_score u title content (s2p ''economique'')
                    \<le> domain_score u title content (s2p ''juridique'')
          then s2p ''juridique''
          else if domain_score u title content (s2p ''economique'')
                    \<le> domain_score u title content (s2p ''rh'')
          then s2p ''rh''
          else s2p ''economique'')"
  unfolding classify_domain_by_scores domain_score_eq [symmetric] by simp

lemma claimed_domain_score_eq:
  "int (claimed_domain_score u title content (s2p ''juridique'')) =
     keyword_score (claimed_domain_window u title content) (domain_words (s2p ''juridique''))"
  "int (claimed_domain_score u title content (s2p ''rh'')) =
     keyword_score (claimed_domain_window u title content) (domain_words (s2p ''rh''))"
  "int (claimed_domain_score u title content (s2p ''economique'')) =
     keyword_score (claimed_domain_window u title content) (domain_words (s2p ''economique''))"
  by (simp_all add: claimed_domain_score_def keyword_score_card distinct_domain_words)

text \<open>
  Claim C8 as stated fails: the code puts a space between the title and the content. For
  the title \<^verbatim>\<open>"ressources"\<close> and the content \<^verbatim>\<open>"humaines"\<close> the code analyses
  \<^verbatim>\<open>"ressources humaines"\<close>, which holds a keyword of \<^verbatim>\<open>'rh'\<close>, and returns \<^verbatim>\<open>'rh'\<close>; the
  concatenation of the two is \<^verbatim>\<open>"ressourceshumaines"\<close>, which holds no keyword of any
  domain, so that the claim gives \<^verbatim>\<open>'autre'\<close>.
\<close>

theorem classify_domain_window_counterexample:
  "classify_domain ascii_db (s2p ''ressources'') (s2p ''humaines'') [] = Inr (s2p ''rh'')
   \<and> claimed_domain_window ascii_db (s2p ''ressources'') (s2p ''humaines'') = s2p ''ressourceshumaines''
   \<and> claimed_domain_score ascii_db (s2p ''ressources'') (s2p ''humaines'') (s2p ''juridique'') = 0
   \<and> claimed_domain_score ascii_db (s2p ''ressources'') (s2p ''humaines'') (s2p ''rh'') = 0
   \<and> claimed_domain_score ascii_db (s2p ''ressources'') (s2p ''humaines'') (s2p ''economique'') = 0"
proof -
  have w: "domain_window ascii_db (s2p ''ressources'') (s2p ''humaines'') = s2p ''ressources humaines''"
    by (simp add: domain_window_def ascii_db_def ascii_lower_def s2p_def)
  have c: "claimed_domain_window ascii_db (s2p ''ressources'') (s2p ''humaines'') = s2p ''ressourceshumaines''"
    by (simp add: claimed_domain_window_def ascii_db_def ascii_lower_def s2p_def)
  have code:
    "keyword_score (s2p ''ressources humaines'') (domain_words (s2p ''juridique'')) = 0"
    "keyword_score (s2p ''ressources humaines'') (domain_words (s2p ''rh'')) = 1"
    "keyword_score (s2p ''ressources humaines'') (domain_words (s2p ''economique'')) = 0"
    by (simp_all add: keyword_score_def domain_words_def domain_keywords_def s2p_def)
  have claim:
    "keyword_score (s2p ''ressourceshumaines'') (domain_words (s2p ''juridique'')) = 0"
    "keyword_score (s2p ''ressourceshumaines'') (domain_words (s2p ''rh'')) = 0"
    "keyword_score (s2p ''ressourceshumaines'') (domain_words (s2p ''economique'')) = 0"
    by (simp_all add: keyword_score_def domain_words_def domain_keywords_def s2p_def)
  have "classify_domain ascii_db (s2p ''ressources'') (s2p ''humaines'') [] = Inr (s2p ''rh'')"
    by (simp add: classify_domain_by_scores w code)
  moreover have
    "int (claimed_domain_score ascii_db (s2p ''ressources'') (s2p ''humaines'') (s2p ''juridique'')) = 0"
    "int (claimed_domain_score ascii_db (s2p ''ressources'') (s2p ''humaines'') (s2p ''rh'')) = 0"
    "int (claimed_domain_score ascii_db (s2p ''ressources'') (s2p ''humaines'') (s2p ''economique'')) = 0"
    by (simp_all only: claimed_domain_score_eq c claim)
  ultimately show ?thesis using c by simp
qed

subsection \<open>classify_chunk_content\<close>

lemma set_detected:
  "set (map fst (filter (\<lambda>(category, kws). list_ex (\<lambda>keyword. contains keyword low) kws) tab)) =
     {c. \<exists>kws. (c, kws) \<in> set tab \<and> (\<exists>k \<in> set kws. sublist k low)}"
  by (force simp: list_ex_iff contains_sublist image_iff)

text \<open>
  Claim C7. The categories \<^verbatim>\<open>classify_chunk_content\<close> returns are exactly the categories of
  the processor's keyword table of which some keyword occurs as a substring of the
  lower-cased text, and \<^verbatim>\<open>'general'\<close> alone when there is none; the result is never empty,
  and the function is total. The table of a constructed processor has the six categories
  \<^verbatim>\<open>procedure\<close>, \<^verbatim>\<open>definition\<close>, \<^verbatim>\<open>obligation\<close>, \<^verbatim>\<open>droit\<close>, \<^verbatim>\<open>sanction\<close>, \<^verbatim>\<open>aide\<close>.
\<close>

theorem classify_chunk_content_spec:
  "set (classify_chunk_content u p t) =
     (if {c. \<exists>kws. (c, kws) \<in> set (chunk_keywords p) \<and> (\<exists>k \<in> set kws. sublist k (str_lower u t))} = {}
      then {s2p ''general''}
      else {c. \<exists>kws. (c, kws) \<in> set (chunk_keywords p) \<and> (\<exists>k \<in> set kws. sublist k (str_lower u t))})
   \<and> classify_chunk_content u p t \<noteq> []
   \<and> map fst (chunk_keywords (init cs ov spacy_model)) =
       [s2p ''procedure'', s2p ''definition'', s2p ''obligation'', s2p ''droit'', s2p ''sanction'',
        s2p ''aide'']"
proof -
  define m where "m = map fst (filter (\<lambda>(category, kws).
      list_ex (\<lambda>keyword. contains keyword (str_lower u t)) kws) (chunk_keywords p))"
  have s: "{c. \<exists>kws. (c, kws) \<in> set (chunk_keywords p) \<and> (\<exists>k \<in> set kws. sublist k (str_lower u t))} = set m"
    unfolding m_def by (rule set_detected [symmetric])
  have r: "classify_chunk_content u p t = (if m = [] then [s2p ''general''] else m)"
    by (simp add: classify_chunk_content_def Let_def m_def)
  have tab: "map fst (chunk_keywords (init cs ov spacy_model)) =
       [s2p ''procedure'', s2p ''definition'', s2p ''obligation'', s2p ''droit'', s2p ''sanction'',
        s2p ''aide'']"
    by (simp add: init_def default_chunk_keywords_def)
  show ?thesis
    unfolding r s using tab by (cases m) simp_all
qed

subsection \<open>The claims about create_chunks_with_overlap\<close>

lemma list_all_trimmed: "(\<forall>s \<in> set ss. s \<noteq> [] \<and> py_strip s = s) \<Longrightarrow> list_all trimmed ss"
  by (simp add: list_all_iff trimmed_iff)

text \<open>
  On sentences as the segmenter gives them, non-empty and with no whitespace at either
  end, every chunk \<^verbatim>\<open>create_chunks_with_overlap\<close> emits has
  \<^verbatim>\<open>char_count >= min_chunk_size\<close>, and its \<^verbatim>\<open>char_count\<close> is the length of its text.
\<close>

theorem create_chunks_size_floor:
  assumes "\<forall>s \<in> set sentences. s \<noteq> [] \<and> py_strip s = s"
  shows "\<forall>c \<in> set (create_chunks_with_overlap u p sentences).
           min_chunk_size p \<le> char_count c \<and> char_count c = int (length (text c))"
proof -
  have "list_all (\<lambda>c. min_chunk_size p \<le> char_count c) (create_chunks_with_overlap u p sentences)"
    using assms by (intro create_chunks_floor list_all_trimmed)
  moreover have "list_all content_chunk (create_chunks_with_overlap u p sentences)"
    by (rule create_chunks_content)
  ultimately show ?thesis by (simp add: list_all_iff content_chunk_def)
qed

text \<open>
  A sentence of any length whose trimmed text is non-empty and has at least
  \<^verbatim>\<open>min_chunk_size\<close> characters is emitted whole: some emitted chunk holds its trimmed text
  as one contiguous piece. The overlap is in the range in which \<^verbatim>\<open>int(self.overlap/10)\<close>
  is exact.
\<close>

theorem create_chunks_sentence_whole:
  assumes "s \<in> set sentences" and "py_strip s \<noteq> []"
    and "min_chunk_size p \<le> int (length (py_strip s))"
    and "\<bar>overlap p\<bar> < 2 ^ 53"
  shows "\<exists>c \<in> set (create_chunks_with_overlap u p sentences).
           sublist (py_strip s) (text c) \<and> int (length (py_strip s)) \<le> char_count c"
proof -
  obtain c where c: "c \<in> set (create_chunks_with_overlap u p sentences)"
      and sub: "sublist (py_strip s) (text c)"
    using create_chunks_keep_sentence [OF assms(1-3)] by blast
  have "list_all content_chunk (create_chunks_with_overlap u p sentences)"
    by (rule create_chunks_content)
  with c have "char_count c = int (length (text c))" by (simp add: list_all_iff content_chunk_def)
  moreover from sub have "length (py_strip s) \<le> length (text c)" by (rule sublist_length)
  ultimately have "int (length (py_strip s)) \<le> char_count c" by simp
  with c sub show ?thesis by blast
qed

subsection \<open>A sentence longer than the target size\<close>

lemma chunks_absorb_mono: "set (chunks st) \<subseteq> set (chunks (absorb u p st x))"
proof (cases rule: absorb_cases [of u p st x])
  case extend
  then show ?thesis by simp
next
  case close
  show ?thesis unfolding close(1) close_chunk_eq by auto
qed

lemma chunks_foldl_mono: "set (chunks st) \<subseteq> set (chunks (foldl (absorb u p) st xs))"
proof (induction xs arbitrary: st)
  case Nil
  then show ?case by simp
next
  case (Cons x xs)
  have "set (chunks st) \<subseteq> set (chunks (absorb u p st x))" by (rule chunks_absorb_mono)
  also have "\<dots> \<subseteq> set (chunks (foldl (absorb u p) (absorb u p st x) xs))" by (rule Cons.IH)
  finally show ?case by simp
qed

lemma chunks_finish_mono: "set (chunks st) \<subseteq> set (finish u p st)"
  unfolding finish_eq by auto

lemma absorb_long:
  assumes "chunk_size p < int (length s)"
  shows "current_chunk (absorb u p st s) = s"
proof (cases "current_chunk st = []")
  case True
  then have "\<not> (int (length (if current_chunk st \<noteq> [] then current_chunk st @ [32] @ s else s))
              > chunk_size p \<and> current_chunk st \<noteq> [])" by simp
  then have "absorb u p st s =
      st \<lparr> current_chunk := (if current_chunk st \<noteq> [] then current_chunk st @ [32] @ s else s) \<rparr>"
    by (rule absorb_extend)
  with True show ?thesis by simp
next
  case False
  moreover from assms have "chunk_size p < int (length (current_chunk st @ [32] @ s))" by simp
  ultimately show ?thesis by (simp add: absorb_close)
qed

text \<open>
  Claim C6, amended. \<^verbatim>\<open>create_chunks_with_overlap\<close> never splits a sentence: a sentence
  longer than \<^verbatim>\<open>chunk_size\<close> is absorbed whole, and after its iteration the buffer is the
  sentence alone, whether the buffer was empty or is closed first. If moreover its
  trimmed text is non-empty and has at least \<^verbatim>\<open>min_chunk_size\<close> characters, it is later
  emitted as one chunk, merged with the overlap carry only: the text of the chunk is the
  carry of that moment, a space and the sentence, trimmed, and it is at least as long as
  the trimmed sentence, so beyond the target size when that is. The overlap is in the
  range in which \<^verbatim>\<open>int(self.overlap/10)\<close> is exact.
\<close>

theorem create_chunks_long_sentence:
  assumes "chunk_size p < int (length s)"
    and "py_strip s \<noteq> []"
    and "min_chunk_size p \<le> int (length (py_strip s))"
    and "\<bar>overlap p\<bar> < 2 ^ 53"
  shows "(\<forall>st. current_chunk (absorb u p st s) = s)
       \<and> (\<exists>c \<in> set (create_chunks_with_overlap u p (pre @ s # post)).
             text c = py_strip (overlap_buffer (absorb u p (foldl (absorb u p) chunker0 pre) s)
                                  @ [32] @ s)
             \<and> int (length (py_strip s)) \<le> char_count c)"
proof -
  let ?st = "absorb u p (foldl (absorb u p) chunker0 pre) s"
  let ?t = "py_strip (overlap_buffer ?st @ [32] @ s)"
  have buf: "current_chunk ?st = s" using assms(1) by (rule absorb_long)
  from assms(2) have ne: "s \<noteq> []" by (auto simp: py_strip_def)
  have "sublist (py_strip s) (py_strip ((overlap_buffer ?st @ [32]) @ s @ []))"
    using assms(2) by (rule sublist_py_strip)
  then have sub: "sublist (py_strip s) ?t" by simp
  then have len: "length (py_strip s) \<le> length ?t" by (rule sublist_length)
  have run: "create_chunks_with_overlap u p (pre @ s # post) = finish u p (foldl (absorb u p) ?st post)"
    by (simp add: create_chunks_with_overlap_def)
  have "\<exists>i md. closed_chunk u p i ?t md \<in> set (create_chunks_with_overlap u p (pre @ s # post))"
  proof (cases post)
    case Nil
    have "length (py_strip s) \<le> length s" by (rule length_py_strip)
    with assms(3) have "min_chunk_size p \<le> int (length s)" by simp
    with ne buf have "closed_chunk u p (next_index ?st) ?t (final_metadata ?t) \<in> set (finish u p ?st)"
      unfolding finish_eq by simp
    with Nil run show ?thesis by auto
  next
    case (Cons x xs)
    from assms(1) have "chunk_size p < int (length (current_chunk ?st @ [32] @ x))"
      by (simp add: buf)
    moreover from ne have "current_chunk ?st \<noteq> []" by (simp add: buf)
    ultimately have step: "absorb u p ?st x =
        (close_chunk u p ?st) \<lparr> overlap_buffer := next_overlap p (current_chunk ?st),
                                 current_chunk := x \<rparr>"
      by (rule absorb_close)
    from len assms(3) have "min_chunk_size p \<le> int (length ?t)" by simp
    then have "closed_chunk u p (next_index ?st) ?t (loop_metadata u ?t)
        \<in> set (chunks (absorb u p ?st x))"
      unfolding step close_chunk_eq by (simp add: buf)
    also have "set (chunks (absorb u p ?st x)) \<subseteq> set (chunks (foldl (absorb u p) (absorb u p ?st x) xs))"
      by (rule chunks_foldl_mono)
    also have "\<dots> \<subseteq> set (finish u p (foldl (absorb u p) (absorb u p ?st x) xs))"
      by (rule chunks_finish_mono)
    finally show ?thesis using Cons run by auto
  qed
  then obtain i md where c: "closed_chunk u p i ?t md \<in> set (create_chunks_with_overlap u p (pre @ s # post))"
    by blast
  have "text (closed_chunk u p i ?t md) = ?t"
    and "int (length (py_strip s)) \<le> char_count (closed_chunk u p i ?t md)"
    using len by (simp_all add: closed_chunk_fields)
  with c have "\<exists>c \<in> set (create_chunks_with_overlap u p (pre @ s # post)).
             text c = ?t \<and> int (length (py_strip s)) \<le> char_count c"
    by blast
  moreover have "\<forall>st. current_chunk (absorb u p st s) = s"
    using assms(1) by (simp add: absorb_long)
  ultimately show ?thesis by blast
qed

subsection \<open>Running the model on plain text\<close>

lemma plain_replicate_a: "list_all plain_char (replicate n 97)"
  by (simp add: list_all_iff plain_char_def is_space_def is_punct_def)

lemma plain_replicate_b: "list_all plain_char (replicate n 98)"
  by (simp add: list_all_iff plain_char_def is_space_def is_punct_def)

lemma collapse_ws_plain: "list_all plain_char s \<Longrightarrow> collapse_ws b s = s"
  by (induction s arbitrary: b) (simp_all add: plain_char_def)

lemma blank_lines_plain: "list_all plain_char s \<Longrightarrow> blank_lines s = s"
  by (induction s) (auto simp: plain_char_def is_space_def)

lemma replace_char_plain:
  "list_all plain_char s \<Longrightarrow> a = 160 \<or> a = 8217 \<or> a = 8211 \<or> a = 8212 \<Longrightarrow> replace_char a b s = s"
  unfolding replace_char_def
  by (rule map_idI) (auto simp: list_all_iff plain_char_def is_space_def)

lemma space_before_punct_plain: "list_all plain_char s \<Longrightarrow> space_before_punct ws s = ws @ s"
  by (induction s arbitrary: ws) (simp_all add: plain_char_def)

lemma space_after_punct_plain: "list_all plain_char s \<Longrightarrow> space_after_punct b s = s"
  by (induction s arbitrary: b) (simp_all add: plain_char_def)

lemma py_strip_plain: "list_all plain_char s \<Longrightarrow> py_strip s = s"
proof (cases "s = []")
  case True
  then show ?thesis by (simp add: py_strip_def)
next
  case False
  assume "list_all plain_char s"
  with False have "\<not> is_space (hd s)" "\<not> is_space (last s)"
    by (simp_all add: list_all_iff plain_char_def)
  with False show ?thesis by (rule py_strip_id)
qed

lemma py_strip_space_Cons: "is_space c \<Longrightarrow> py_strip (c # s) = py_strip s"
  by (simp add: py_strip_def)

lemma py_strip_spaces: "list_all is_space s \<Longrightarrow> py_strip s = []"
proof -
  assume "list_all is_space s"
  then have "dropWhile is_space s = []" by (induction s) simp_all
  then show ?thesis unfolding py_strip_def by (simp only: rev.simps dropWhile.simps)
qed

lemma clean_text_plain: "list_all plain_char s \<Longrightarrow> clean_text s = s"
  by (simp add: clean_text_def Let_def collapse_ws_plain blank_lines_plain replace_char_plain
      space_before_punct_plain space_after_punct_plain py_strip_plain)

lemma abbrev_at_plain:
  assumes "list_all plain_char s"
  shows "abbrev_at s = None"
proof -
  have "\<not> prefix (a @ [46]) s" for a
  proof
    assume "prefix (a @ [46]) s"
    then have "set (a @ [46]) \<subseteq> set s" by (rule set_mono_prefix)
    with assms show False by (auto simp: list_all_iff plain_char_def is_punct_def)
  qed
  then show ?thesis by (simp add: abbrev_at_def find_None_iff)
qed

lemma protect_abbrev_plain: "list_all plain_char s \<Longrightarrow> protect_abbrev u w s = s"
proof (induction s arbitrary: w)
  case Nil
  then show ?case by simp
next
  case (Cons c cs)
  then have "abbrev_at (c # cs) = None" by (intro abbrev_at_plain)
  with Cons show ?case by simp
qed

lemma split_sentences_plain:
  "list_all plain_char s \<Longrightarrow> split_sentences acc [] b s = [acc @ s]"
  by (induction s arbitrary: acc b) (simp_all add: plain_char_def is_punct_def is_terminator_def)

lemma py_replace_plain: "list_all plain_char s \<Longrightarrow> py_replace abbrev_marker [46] s = s"
proof (induction s)
  case Nil
  then show ?case by simp
next
  case (Cons c cs)
  then have "c \<noteq> 60" by (simp add: plain_char_def)
  then have "\<not> prefix abbrev_marker (c # cs)" by (simp add: abbrev_marker_def s2p_def)
  with Cons show ?case by simp
qed

lemma smart_split_plain:
  assumes "list_all plain_char s" and "s \<noteq> []" and "\<not> use_spacy p"
  shows "smart_split_sentences u p s = [s]"
  using assms
  by (simp add: smart_split_sentences_def Let_def protect_abbrev_plain split_sentences_plain
      py_replace_plain py_strip_plain)

lemma split_ws_plain:
  "list_all plain_char s \<Longrightarrow> split_ws w s = (if w @ s = [] then [] else [w @ s])"
  by (induction s arbitrary: w) (simp_all add: plain_char_def)

lemma py_split_plain: "list_all plain_char s \<Longrightarrow> s \<noteq> [] \<Longrightarrow> py_split s = [s]"
  by (simp add: py_split_def split_ws_plain)

lemma absorb_first: "absorb u p chunker0 s = chunker0 \<lparr> current_chunk := s \<rparr>"
  by (simp add: absorb_def chunker0_def)

lemma create_chunks_single:
  "create_chunks_with_overlap u p [s] =
     (if s \<noteq> [] \<and> min_chunk_size p \<le> int (length s)
      then [closed_chunk u p 0 (py_strip (32 # s)) (final_metadata (py_strip (32 # s)))]
      else [])"
proof -
  have "foldl (absorb u p) chunker0 [s] = chunker0 \<lparr> current_chunk := s \<rparr>"
    by (simp add: absorb_first)
  then show ?thesis
    unfolding create_chunks_with_overlap_def finish_eq by (simp add: chunker0_def)
qed

lemma create_chunks_single_plain:
  assumes "list_all plain_char s" and "s \<noteq> []" and "min_chunk_size p \<le> int (length s)"
  shows "create_chunks_with_overlap u p [s] = [closed_chunk u p 0 s (final_metadata s)]"
proof -
  have "py_strip (32 # s) = s"
    using assms(1) by (simp add: py_strip_space_Cons py_strip_plain is_space_def)
  with assms show ?thesis by (simp add: create_chunks_single)
qed

subsection \<open>Concrete runs\<close>

lemma init_fields:
  "chunk_size (init cs ov sm) = cs"
  "overlap (init cs ov sm) = ov"
  "min_chunk_size (init cs ov sm) = 100"
  "use_spacy (init cs ov None) = False"
  by (simp_all add: init_def)

text \<open>
  Claim C1. Every chunk \<^verbatim>\<open>create_chunks_with_overlap\<close> emits should have
  \<^verbatim>\<open>char_count >= min_chunk_size\<close>, which is 100. The code breaks this in the chunk it
  emits after the loop: the guard there measures the buffer, before trimming, where the
  guard inside the loop measures the trimmed text it emits. A sentence of 100 spaces
  passes it, and the chunk emitted has the empty text and \<^verbatim>\<open>char_count\<close> 0.
\<close>

theorem size_floor_counterexample:
  "map char_count (create_chunks_with_overlap ascii_db (init 300 50 None) [replicate 100 32]) = [0]
   \<and> map text (create_chunks_with_overlap ascii_db (init 300 50 None) [replicate 100 32]) = [[]]
   \<and> min_chunk_size (init 300 50 None) = 100"
proof -
  have "list_all is_space (32 # replicate 100 32)"
    by (simp add: list_all_iff is_space_def)
  then have "py_strip (32 # replicate 100 32) = []" by (rule py_strip_spaces)
  then show ?thesis
    by (simp add: create_chunks_single init_fields closed_chunk_fields)
qed

theorem create_chunks_size_floor_witness:
  "replicate 120 97 \<noteq> [] \<and> py_strip (replicate 120 97) = replicate 120 97
   \<and> map char_count (create_chunks_with_overlap ascii_db (init 300 50 None) [replicate 120 97]) = [120]
   \<and> list_all (\<lambda>c. min_chunk_size (init 300 50 None) \<le> char_count c)
        (create_chunks_with_overlap ascii_db (init 300 50 None) [replicate 120 97])"
proof -
  have s: "py_strip (replicate 120 97) = replicate 120 97"
    by (rule py_strip_plain) (rule plain_replicate_a)
  then have "\<forall>s \<in> set [replicate 120 97]. s \<noteq> [] \<and> py_strip s = s" by simp
  then have "\<forall>c \<in> set (create_chunks_with_overlap ascii_db (init 300 50 None) [replicate 120 97]).
           min_chunk_size (init 300 50 None) \<le> char_count c \<and> char_count c = int (length (text c))"
    by (rule create_chunks_size_floor)
  moreover have "create_chunks_with_overlap ascii_db (init 300 50 None) [replicate 120 97] =
      [closed_chunk ascii_db (init 300 50 None) 0 (replicate 120 97) (final_metadata (replicate 120 97))]"
    by (rule create_chunks_single_plain) (simp_all add: plain_replicate_a init_fields)
  ultimately show ?thesis using s by (simp add: closed_chunk_fields)
qed

text \<open>
  Claim C6 as stated fails: with \<^verbatim>\<open>chunk_size = 50\<close> a sentence of 60 characters is longer
  than the target and is absorbed whole, but no chunk is emitted for it, alone or followed
  by a second such sentence, since what the final guard measures is below the minimum
  size of 100.
\<close>

theorem long_sentence_counterexample:
  "chunk_size (init 50 50 None) < int (length (replicate 60 (97::nat)))
   \<and> current_chunk (absorb ascii_db (init 50 50 None) chunker0 (replicate 60 97)) = replicate 60 97
   \<and> create_chunks_with_overlap ascii_db (init 50 50 None) [replicate 60 97] = []
   \<and> create_chunks_with_overlap ascii_db (init 50 50 None) [replicate 60 97, replicate 60 98] = []"
proof -
  let ?p = "init 50 50 None"
  let ?st = "chunker0 \<lparr> current_chunk := replicate 60 97 \<rparr>"
  have one: "create_chunks_with_overlap ascii_db ?p [replicate 60 97] = []"
    by (simp add: create_chunks_single init_fields)
  have "py_strip ([] @ [32] @ replicate 60 97) = replicate 60 97"
    by (simp add: py_strip_space_Cons py_strip_plain plain_replicate_a is_space_def)
  then have closed: "close_chunk ascii_db ?p ?st = ?st"
    by (simp add: close_chunk_eq init_fields chunker0_def)
  have "absorb ascii_db ?p ?st (replicate 60 98) =
      (close_chunk ascii_db ?p ?st) \<lparr> overlap_buffer := next_overlap ?p (current_chunk ?st),
                                       current_chunk := replicate 60 98 \<rparr>"
    by (rule absorb_close) (simp_all add: init_fields)
  then have "foldl (absorb ascii_db ?p) chunker0 [replicate 60 97, replicate 60 98] =
      ?st \<lparr> overlap_buffer := next_overlap ?p (replicate 60 97), current_chunk := replicate 60 98 \<rparr>"
    by (simp add: absorb_first closed)
  then have two: "create_chunks_with_overlap ascii_db ?p [replicate 60 97, replicate 60 98] = []"
    unfolding create_chunks_with_overlap_def finish_eq by (simp add: init_fields chunker0_def)
  from one two show ?thesis by (simp add: absorb_first init_fields)
qed

theorem create_chunks_long_sentence_witness:
  "chunk_size (init 100 50 None) < int (length (replicate 120 (97::nat)))
   \<and> py_strip (replicate 120 97) \<noteq> []
   \<and> min_chunk_size (init 100 50 None) \<le> int (length (py_strip (replicate 120 97)))
   \<and> \<bar>overlap (init 100 50 None)\<bar> < 2 ^ 53
   \<and> current_chunk (absorb ascii_db (init 100 50 None) chunker0 (replicate 120 97))
       = replicate 120 97
   \<and> (\<exists>c \<in> set (create_chunks_with_overlap ascii_db (init 100 50 None)
                    [replicate 110 98, replicate 120 97]).
         text c = replicate 110 98 @ [32] @ replicate 120 97 \<and> 120 \<le> char_count c)"
proof -
  let ?p = "init 100 50 None"
  let ?a = "replicate 120 (97::nat)"
  let ?b = "replicate 110 (98::nat)"
  let ?st = "chunker0 \<lparr> current_chunk := ?b \<rparr>"
  have s: "py_strip ?a = ?a"
    by (rule py_strip_plain) (rule plain_replicate_a)
  have h1: "chunk_size ?p < int (length ?a)" by (simp add: init_fields)
  have h2: "py_strip ?a \<noteq> []" by (simp add: s)
  have h3: "min_chunk_size ?p \<le> int (length (py_strip ?a))" by (simp add: s init_fields)
  have h4: "\<bar>overlap ?p\<bar> < 2 ^ 53" by (simp add: init_fields)
  have carry: "next_overlap ?p ?b = ?b"
    by (simp add: next_overlap_def Let_def py_split_plain plain_replicate_b)
  have "absorb ascii_db ?p ?st ?a =
      (close_chunk ascii_db ?p ?st) \<lparr> overlap_buffer := next_overlap ?p (current_chunk ?st),
                                       current_chunk := ?a \<rparr>"
    by (rule absorb_close) (simp_all add: init_fields)
  then have ob: "overlap_buffer (absorb ascii_db ?p (foldl (absorb ascii_db ?p) chunker0 [?b]) ?a) = ?b"
    by (simp add: absorb_first carry)
  have strip: "py_strip (?b @ [32] @ ?a) = ?b @ [32] @ ?a"
    by (rule py_strip_id) (simp_all add: hd_append is_space_def)
  have "(\<forall>st. current_chunk (absorb ascii_db ?p st ?a) = ?a)
       \<and> (\<exists>c \<in> set (create_chunks_with_overlap ascii_db ?p ([?b] @ ?a # [])).
             text c = py_strip (overlap_buffer
                 (absorb ascii_db ?p (foldl (absorb ascii_db ?p) chunker0 [?b]) ?a) @ [32] @ ?a)
             \<and> int (length (py_strip ?a)) \<le> char_count c)"
    using h1 h2 h3 h4 by (rule create_chunks_long_sentence)
  then have "current_chunk (absorb ascii_db ?p chunker0 ?a) = ?a"
    and "\<exists>c \<in> set (create_chunks_with_overlap ascii_db ?p [?b, ?a]).
           text c = ?b @ [32] @ ?a \<and> 120 \<le> char_count c"
    unfolding ob strip s by simp_all
  with h1 h2 h3 h4 show ?thesis by blast
qed

theorem create_chunks_sentence_whole_witness:
  "replicate 120 97 \<in> set [replicate 120 (97::nat), replicate 50 98]
   \<and> py_strip (replicate 120 97) \<noteq> []
   \<and> min_chunk_size (init 100 50 None) \<le> int (length (py_strip (replicate 120 97)))
   \<and> \<bar>overlap (init 100 50 None)\<bar> < 2 ^ 53
   \<and> (\<exists>c \<in> set (create_chunks_with_overlap ascii_db (init 100 50 None)
                    [replicate 120 97, replicate 50 98]).
         sublist (replicate 120 97) (text c) \<and> 120 \<le> char_count c)"
proof -
  let ?p = "init 100 50 None"
  let ?a = "replicate 120 (97::nat)"
  have s: "py_strip ?a = ?a"
    by (rule py_strip_plain) (rule plain_replicate_a)
  have h1: "?a \<in> set [?a, replicate 50 98]" by simp
  have h2: "py_strip ?a \<noteq> []" by (simp add: s)
  have h3: "min_chunk_size ?p \<le> int (length (py_strip ?a))" by (simp add: s init_fields)
  have h4: "\<bar>overlap ?p\<bar> < 2 ^ 53" by (simp add: init_fields)
  have "\<exists>c \<in> set (create_chunks_with_overlap ascii_db ?p [?a, replicate 50 98]).
         sublist (py_strip ?a) (text c) \<and> int (length (py_strip ?a)) \<le> char_count c"
    using h1 h2 h3 h4 by (rule create_chunks_sentence_whole)
  then have "\<exists>c \<in> set (create_chunks_with_overlap ascii_db ?p [?a, replicate 50 98]).
         sublist ?a (text c) \<and> 120 \<le> char_count c"
    unfolding s by simp
  with h1 h2 h3 h4 show ?thesis by blast
qed

lemma process_document_plain:
  assumes "list_all plain_char s" and "s \<noteq> []" and "min_chunk_size p \<le> int (length s)"
    and "\<not> use_spacy p"
  shows "process_document u p title s mo =
           doc_title_chunks title (arg_metadata mo) @
           [with_doc_metadata (arg_metadata mo) (length (doc_title_chunks title (arg_metadata mo)))
              (closed_chunk u p 0 s (final_metadata s))]"
  using assms
  by (simp add: process_document_eq clean_text_plain smart_split_plain create_chunks_single_plain)

lemma guide_title:
  "py_strip (32 # s2p ''Guide du salarie'') = s2p ''Guide du salarie''"
  "length (s2p ''Guide du salarie'') = 16"
proof -
  have "py_strip (s2p ''Guide du salarie'') = s2p ''Guide du salarie''"
    by (rule py_strip_id) (simp_all add: s2p_def is_space_def)
  then show "py_strip (32 # s2p ''Guide du salarie'') = s2p ''Guide du salarie''"
    by (simp add: py_strip_space_Cons is_space_def)
  show "length (s2p ''Guide du salarie'') = 16" by (simp add: s2p_def)
qed

text \<open>
  Claim C4 fails on the title chunk: its text is the trimmed title and its \<^verbatim>\<open>char_count\<close>
  the length of the title as passed. For the title \<^verbatim>\<open>" Guide du salarie"\<close> and a content of
  120 letters, the title chunk has a text of 16 characters and \<^verbatim>\<open>char_count = 17\<close>.
\<close>

theorem title_chunk_char_count:
  "map (\<lambda>c. (chunk_type c, int (length (text c)), char_count c))
     (process_document ascii_db (init 300 50 None) (32 # s2p ''Guide du salarie'')
        (replicate 120 97) None) =
   [(s2p ''title'', 16, 17), (s2p ''content'', 120, 120)]"
proof -
  have "process_document ascii_db (init 300 50 None) (32 # s2p ''Guide du salarie'')
          (replicate 120 97) None =
        doc_title_chunks (32 # s2p ''Guide du salarie'') (arg_metadata None) @
        [with_doc_metadata (arg_metadata None)
           (length (doc_title_chunks (32 # s2p ''Guide du salarie'') (arg_metadata None)))
           (closed_chunk ascii_db (init 300 50 None) 0 (replicate 120 97)
              (final_metadata (replicate 120 97)))]"
    by (rule process_document_plain) (simp_all add: plain_replicate_a init_fields)
  then show ?thesis
    by (simp add: doc_title_chunks_def guide_title title_chunk_def new_TextChunk_def
        with_doc_metadata_fields closed_chunk_fields)
qed

text \<open>
  Claim C5 fails on the last chunk: its metadata has the keys \<^verbatim>\<open>sentence_count\<close> and
  \<^verbatim>\<open>is_final\<close> only. A document of one sentence has no other content chunk.
\<close>

theorem final_chunk_metadata_keys:
  "map (\<lambda>c. map fst (metadata c))
     (create_chunks_with_overlap ascii_db (init 300 50 None) [replicate 120 97]) =
   [[s2p ''sentence_count'', s2p ''is_final'']]
   \<and> map (\<lambda>c. (dict_get (metadata c) (s2p ''has_numbers''), dict_get (metadata c) (s2p ''has_dates''),
                 dict_get (metadata c) (s2p ''complexity'')))
       (create_chunks_with_overlap ascii_db (init 300 50 None) [replicate 120 97]) =
     [(None, None, None)]"
proof -
  have "create_chunks_with_overlap ascii_db (init 300 50 None) [replicate 120 97] =
      [closed_chunk ascii_db (init 300 50 None) 0 (replicate 120 97) (final_metadata (replicate 120 97))]"
    by (rule create_chunks_single_plain) (simp_all add: plain_replicate_a init_fields)
  then show ?thesis
    by (simp add: closed_chunk_fields final_metadata_def dict_get_def s2p_def)
qed

text \<open>
  Claim C2 fails: the guard of the last chunk measures the buffer alone. After the
  sentences of 120 and of 50 letters with \<^verbatim>\<open>chunk_size = 100\<close>, the buffer is the second
  sentence and the overlap carry the first; carry, space and buffer have 171 characters,
  which reaches the minimum of 100, and no last chunk is emitted: the only chunk is the
  first sentence, closed inside the loop, without \<^verbatim>\<open>is_final\<close>.
\<close>

theorem final_chunk_guard_ignores_carry:
  "current_chunk (foldl (absorb ascii_db (init 100 50 None)) chunker0
      [replicate 120 97, replicate 50 98]) = replicate 50 98
   \<and> overlap_buffer (foldl (absorb ascii_db (init 100 50 None)) chunker0
      [replicate 120 97, replicate 50 98]) = replicate 120 97
   \<and> int (length (py_strip (replicate 120 97 @ [32] @ replicate 50 98))) = 171
   \<and> min_chunk_size (init 100 50 None) = 100
   \<and> map text (create_chunks_with_overlap ascii_db (init 100 50 None)
        [replicate 120 97, replicate 50 98]) = [replicate 120 97]
   \<and> map (\<lambda>c. dict_get (metadata c) (s2p ''is_final''))
        (create_chunks_with_overlap ascii_db (init 100 50 None)
           [replicate 120 97, replicate 50 98]) = [None]"
proof -
  let ?p = "init 100 50 None"
  let ?a = "replicate 120 (97::nat)"
  let ?b = "replicate 50 (98::nat)"
  let ?st = "chunker0 \<lparr> current_chunk := ?a \<rparr>"
  have strip_a: "py_strip ([] @ [32] @ ?a) = ?a"
    by (simp add: py_strip_space_Cons py_strip_plain plain_replicate_a is_space_def)
  have closed: "close_chunk ascii_db ?p ?st =
      ?st \<lparr> chunks := [closed_chunk ascii_db ?p 0 ?a (loop_metadata ascii_db ?a)],
             next_index := 1 \<rparr>"
    unfolding close_chunk_eq using strip_a by (simp add: init_fields chunker0_def)
  have carry: "next_overlap ?p ?a = ?a"
    by (simp add: next_overlap_def Let_def py_split_plain plain_replicate_a)
  have "absorb ascii_db ?p ?st ?b =
      (close_chunk ascii_db ?p ?st) \<lparr> overlap_buffer := next_overlap ?p (current_chunk ?st),
                                       current_chunk := ?b \<rparr>"
    by (rule absorb_close) (simp_all add: init_fields)
  then have st: "foldl (absorb ascii_db ?p) chunker0 [?a, ?b] =
      ?st \<lparr> chunks := [closed_chunk ascii_db ?p 0 ?a (loop_metadata ascii_db ?a)],
             next_index := 1, overlap_buffer := ?a, current_chunk := ?b \<rparr>"
    by (simp add: absorb_first closed carry)
  have res: "create_chunks_with_overlap ascii_db ?p [?a, ?b] =
      [closed_chunk ascii_db ?p 0 ?a (loop_metadata ascii_db ?a)]"
    unfolding create_chunks_with_overlap_def st finish_eq by (simp add: init_fields)
  have "py_strip (?a @ [32] @ ?b) = ?a @ [32] @ ?b"
    by (rule py_strip_id) (simp_all add: is_space_def)
  then have len: "int (length (py_strip (?a @ [32] @ ?b))) = 171" by simp
  have key: "dict_get (loop_metadata ascii_db ?a) (s2p ''is_final'') = None"
    by (simp add: loop_metadata_def dict_get_def s2p_def)
  from st res len key show ?thesis by (simp add: closed_chunk_fields init_fields)
qed

theorem process_document_metadata_precedence_witness:
  "distinct (map fst [(s2p ''sentence_count'', PyStr (s2p ''caller''))])
   \<and> chunk_type (last (process_document ascii_db (init 300 50 None) (s2p ''Guide du salarie'')
        (replicate 120 97) (Some [(s2p ''sentence_count'', PyStr (s2p ''caller''))])))
       = s2p ''content''
   \<and> dict_get (metadata (last (process_document ascii_db (init 300 50 None) (s2p ''Guide du salarie'')
        (replicate 120 97) (Some [(s2p ''sentence_count'', PyStr (s2p ''caller''))]))))
        (s2p ''sentence_count'') = Some (PyStr (s2p ''caller''))
   \<and> dict_get (metadata (last (process_document ascii_db (init 300 50 None) (s2p ''Guide du salarie'')
        (replicate 120 97) (Some [(s2p ''sentence_count'', PyStr (s2p ''caller''))]))))
        (s2p ''is_final'') = Some (PyBool True)"
proof -
  let ?md = "[(s2p ''sentence_count'', PyStr (s2p ''caller''))]"
  let ?p = "init 300 50 None"
  let ?a = "replicate 120 (97::nat)"
  let ?r = "process_document ascii_db ?p (s2p ''Guide du salarie'') ?a (Some ?md)"
  let ?t = "doc_title_chunks (s2p ''Guide du salarie'') (arg_metadata (Some ?md))"
  have clean: "clean_text ?a = ?a" by (rule clean_text_plain) (rule plain_replicate_a)
  have split: "smart_split_sentences ascii_db ?p ?a = [?a]"
    by (rule smart_split_plain) (simp_all add: plain_replicate_a init_fields)
  have cc: "create_chunks_with_overlap ascii_db ?p [?a] =
      [closed_chunk ascii_db ?p 0 ?a (final_metadata ?a)]"
    by (rule create_chunks_single_plain) (simp_all add: plain_replicate_a init_fields)
  have r: "?r = ?t @ [with_doc_metadata (arg_metadata (Some ?md)) (length ?t)
              (closed_chunk ascii_db ?p 0 ?a (final_metadata ?a))]"
    by (rule process_document_plain) (simp_all add: plain_replicate_a init_fields)
  then have l: "last ?r = with_doc_metadata (arg_metadata (Some ?md)) (length ?t)
              (closed_chunk ascii_db ?p 0 ?a (final_metadata ?a))" by simp
  have d: "distinct (map fst ?md)" by simp
  have m: "last ?r \<in> set ?r" unfolding r by simp
  have ty: "chunk_type (last ?r) = s2p ''content''"
    unfolding l by (simp add: with_doc_metadata_fields closed_chunk_fields)
  from process_document_metadata_precedence [OF d m ty]
  obtain a where a: "a \<in> set (create_chunks_with_overlap ascii_db ?p
        (smart_split_sentences ascii_db ?p (clean_text ?a)))"
    and look: "\<forall>k. dict_get (metadata (last ?r)) k =
        (case dict_get ?md k of Some v \<Rightarrow> Some v | None \<Rightarrow> dict_get (metadata a) k)"
    by blast
  from a have "a = closed_chunk ascii_db ?p 0 ?a (final_metadata ?a)"
    by (simp add: clean split cc)
  then have ma: "metadata a = final_metadata ?a" by (simp add: closed_chunk_fields)
  have k1: "dict_get (metadata (last ?r)) (s2p ''sentence_count'') = Some (PyStr (s2p ''caller''))"
    using look by (simp add: dict_get_def)
  have k2: "dict_get (metadata (last ?r)) (s2p ''is_final'') = Some (PyBool True)"
    using look by (simp add: ma dict_get_def final_metadata_def s2p_def)
  from d ty k1 k2 show ?thesis by blast
qed

subsection \<open>What the code does where a claim fails\<close>

lemma split_ws_spaces: "list_all is_space b \<Longrightarrow> split_ws w b = split_ws w []"
  by (induction b arbitrary: w) simp_all

lemma split_ws_trailing: "list_all is_space b \<Longrightarrow> split_ws w (x @ b) = split_ws w x"
  by (induction x arbitrary: w) (simp_all add: split_ws_spaces)

lemma split_ws_leading: "list_all is_space a \<Longrightarrow> split_ws [] (a @ x) = split_ws [] x"
  by (induction a) simp_all

lemma py_split_strip: "py_split (py_strip s) = py_split s"
proof -
  let ?d = "dropWhile is_space s"
  let ?b = "rev (takeWhile is_space (rev ?d))"
  have d: "?d = py_strip s @ ?b" unfolding py_strip_def by (rule strip_decomp)
  have a: "list_all is_space (takeWhile is_space s)"
    by (simp add: list_all_iff) (metis set_takeWhileD)
  have b: "list_all is_space ?b"
    by (simp add: list_all_iff) (metis set_takeWhileD)
  have "s = takeWhile is_space s @ ?d" by simp
  then have "split_ws [] s = split_ws [] (takeWhile is_space s @ ?d)" by simp
  also have "\<dots> = split_ws [] ?d" using a by (rule split_ws_leading)
  also have "\<dots> = split_ws [] (py_strip s @ ?b)" using d by simp
  also have "\<dots> = split_ws [] (py_strip s)" using b by (rule split_ws_trailing)
  finally show ?thesis by (simp add: py_split_def)
qed

text \<open>
  The counts of every chunk of \<^verbatim>\<open>process_document\<close>: \<^verbatim>\<open>word_count\<close> is the number of words
  of the text; \<^verbatim>\<open>char_count\<close> is the length of the text for a content chunk, and the
  length of the title as passed, not trimmed, for the title chunk.
\<close>

theorem process_document_counts:
  "list_all (\<lambda>c. word_count c = int (length (py_split (text c)))
              \<and> char_count c = (if chunk_type c = s2p ''title'' then int (length title)
                                else int (length (text c))))
     (process_document u p title content md)"
proof -
  let ?cc = "create_chunks_with_overlap u p (smart_split_sentences u p (clean_text content))"
  let ?P = "\<lambda>c. word_count c = int (length (py_split (text c)))
              \<and> char_count c = (if chunk_type c = s2p ''title'' then int (length title)
                                else int (length (text c)))"
  have t: "list_all ?P (doc_title_chunks title m)" for m
    by (simp add: doc_title_chunks_def title_chunk_def new_TextChunk_def py_split_strip)
  have "list_all content_chunk ?cc" by (rule create_chunks_content)
  then have c: "list_all ?P (map (with_doc_metadata m k) ?cc)" for m k
    using title_not_content
    by (simp add: list_all_iff content_chunk_def with_doc_metadata_fields)
  show ?thesis unfolding process_document_eq using t c by simp
qed

lemma loop_keys_absorb:
  "list_all (\<lambda>c. map fst (metadata c) = loop_keys) (chunks st) \<Longrightarrow>
   list_all (\<lambda>c. map fst (metadata c) = loop_keys) (chunks (absorb u p st x))"
proof (cases rule: absorb_cases [of u p st x])
  case extend
  assume "list_all (\<lambda>c. map fst (metadata c) = loop_keys) (chunks st)"
  with extend show ?thesis by simp
next
  case close
  assume "list_all (\<lambda>c. map fst (metadata c) = loop_keys) (chunks st)"
  then show ?thesis
    unfolding close(1) close_chunk_eq
    by (simp add: closed_chunk_fields loop_metadata_def loop_keys_def)
qed

lemma loop_keys_foldl:
  "list_all (\<lambda>c. map fst (metadata c) = loop_keys) (chunks st) \<Longrightarrow>
   list_all (\<lambda>c. map fst (metadata c) = loop_keys) (chunks (foldl (absorb u p) st xs))"
  by (induction xs arbitrary: st) (simp_all add: loop_keys_absorb)

text \<open>
  The chunks closed inside the loop carry the four structural flags, in this order.
\<close>

theorem loop_chunks_structural_flags:
  "list_all (\<lambda>c. map fst (metadata c) =
       [s2p ''sentence_count'', s2p ''has_numbers'', s2p ''has_dates'', s2p ''complexity''])
     (chunks (foldl (absorb u p) chunker0 sentences))"
  using loop_keys_foldl [of chunker0 u p sentences] by (simp add: chunker0_def loop_keys_def)

text \<open>
  The result of \<^verbatim>\<open>create_chunks_with_overlap\<close> is the chunks closed inside the loop and,
  exactly when the buffer left by the loop is non-empty and has at least
  \<^verbatim>\<open>min_chunk_size\<close> characters by itself, one more chunk: the overlap carry, a space and
  the buffer, trimmed, with the metadata keys \<^verbatim>\<open>sentence_count\<close> and \<^verbatim>\<open>is_final\<close>.
\<close>

theorem final_chunk_rule:
  "\<exists>c. text c = py_strip (overlap_buffer (foldl (absorb u p) chunker0 sentences) @ [32] @
                          current_chunk (foldl (absorb u p) chunker0 sentences))
      \<and> metadata c = [(s2p ''sentence_count'', PyInt (sentence_count (text c))),
                      (s2p ''is_final'', PyBool True)]
      \<and> create_chunks_with_overlap u p sentences =
          chunks (foldl (absorb u p) chunker0 sentences) @
          (if current_chunk (foldl (absorb u p) chunker0 sentences) \<noteq> []
              \<and> min_chunk_size p \<le> int (length (current_chunk (foldl (absorb u p) chunker0 sentences)))
           then [c] else [])"
proof -
  let ?st = "foldl (absorb u p) chunker0 sentences"
  let ?t = "py_strip (overlap_buffer ?st @ [32] @ current_chunk ?st)"
  let ?c = "closed_chunk u p (next_index ?st) ?t (final_metadata ?t)"
  have "text ?c = ?t" by (simp add: closed_chunk_fields)
  moreover have "metadata ?c = [(s2p ''sentence_count'', PyInt (sentence_count (text ?c))),
                      (s2p ''is_final'', PyBool True)]"
    by (simp add: closed_chunk_fields final_metadata_def)
  moreover have "create_chunks_with_overlap u p sentences =
          chunks ?st @ (if current_chunk ?st \<noteq> [] \<and> min_chunk_size p \<le> int (length (current_chunk ?st))
           then [?c] else [])"
    unfolding create_chunks_with_overlap_def finish_eq by simp
  ultimately show ?thesis by blast
qed

end
